theory Spec2Isabelle
  imports Main
begin

section \<open>Data model of \<open>filter-using-index.ts\<close>\<close>

text \<open>
  The planner works on JavaScript values. TypeScript's types (\<open>DbComparatorValue\<close>,
  \<open>IndexFieldValue\<close>) are erased at run time, and \<open>toIndexFieldValue\<close> returns its argument
  unchanged, so one datatype of run-time values serves both. Numbers are restricted to
  integers. \<open>JsObject\<close> stands for any non-array object (a \<open>RegExp\<close>, for instance);
  \<open>undefinedSymbol\<close> is the symbol imported from \<open>create-index\<close>; \<open>JsUndefined\<close> is
  JavaScript's \<open>undefined\<close>, the value of an omitted argument.
\<close>

datatype JsValue =
    JsNull
  | JsUndefined
  | JsBool bool
  | JsNumber int
  | JsString string
  | undefinedSymbol
  | JsObject string
  | JsArray "JsValue list"

type_synonym DbComparatorValue = JsValue
type_synonym IndexFieldValue = JsValue
type_synonym IndexKey = "IndexFieldValue list"

datatype DbComparator = EQ | IN | GTE | LTE | GT | LT | NE | NIN

text \<open>The field \<open>value\<close> of a filter statement is written \<open>filterValue\<close>.\<close>

record IDbFilterStatement =
  comparator :: DbComparator
  filterValue :: DbComparatorValue

text \<open>
  A \<open>DbQuery\<close> is a JavaScript object: \<open>Set\<close> membership compares references. The field
  \<open>ref\<close> carries the object's identity, so that equality of records is equality of
  references. \<open>dbQueryToDottedField\<close> and \<open>getFilterStatement\<close> (imported from
  \<open>common/query\<close>) read the clause's dotted field path and its filter statement.
\<close>

record DbQuery =
  ref :: nat
  dottedField :: string
  filterStatement :: IDbFilterStatement

definition dbQueryToDottedField :: "DbQuery \<Rightarrow> string" where
  "dbQueryToDottedField q = dottedField q"

definition getFilterStatement :: "DbQuery \<Rightarrow> IDbFilterStatement" where
  "getFilterStatement q = filterStatement q"

text \<open>
  \<open>RangeValue\<close>: a field value, one of the two rails, or one of the two-element arrays
  \<open>RangeEdgeAfter = [v, BinaryInfinityPositive]\<close> and \<open>RangeEdgeBefore = [undefinedSymbol, v]\<close>.
\<close>

datatype RangeValue =
    Value IndexFieldValue
  | RangeEdgeAfter IndexFieldValue
  | RangeEdgeBefore IndexFieldValue
  | BinaryInfinityPositive
  | BinaryInfinityNegative

type_synonym RangeBoundary = "RangeValue list"

text \<open>
  An \<open>IIndexRange\<close>, its fields \<open>start\<close> and \<open>end\<close> written \<open>rangeStart\<close> and \<open>rangeEnd\<close>.
  \<open>getIndexRanges\<close> fills \<open>end\<close> by an indexed read, which in JavaScript gives \<open>undefined\<close>
  out of range: \<open>rangeEnd\<close> is \<open>None\<close> then.
\<close>

record IIndexRange =
  rangeStart :: RangeBoundary
  rangeEnd :: "RangeBoundary option"

datatype ValueEdges = BEFORE | NONE | AFTER

datatype error =
    InArgumentNotArray
  | ValueMustNotBeArray DbComparator
  | UnsupportedComparator DbComparator
  | RangeFilterArrayValue DbComparator
  | RangeFilterObjectValue DbComparator
  | BadFilterValue DbComparator
  | UnexpectedComparatorPair DbComparator DbComparator
  | CannotCountUnresolved
  | CannotCountMultiKey
  | BadIdentifier IndexFieldValue
  | TypeErrorNotIterable

text \<open>
  A JavaScript \<open>Set\<close> of queries: its elements in insertion order, without repetition.
  \<open>size\<close> is \<open>length\<close>, \<open>has\<close> is membership.
\<close>

type_synonym QuerySet = "DbQuery list"

definition setAdd :: "QuerySet \<Rightarrow> DbQuery \<Rightarrow> QuerySet" where
  "setAdd s q = (if q \<in> set s then s else s @ [q])"

section \<open>Sentinel and edge arithmetic\<close>

definition getValueEdgeAfter :: "IndexFieldValue \<Rightarrow> RangeValue" where
  "getValueEdgeAfter v = RangeEdgeAfter v"

definition getValueEdgeBefore :: "IndexFieldValue \<Rightarrow> RangeValue" where
  "getValueEdgeBefore v = RangeEdgeBefore v"

section \<open>Filter classifier\<close>

definition canUseIndex :: "DbComparator list" where
  "canUseIndex = [EQ, IN, GTE, LTE, GT, LT]"

text \<open>The loop of \<open>sortByFilterSpecificity\<close> over \<open>canUseIndex\<close>, in insertion order.\<close>

fun specificityLoop :: "DbComparator list \<Rightarrow> DbComparator \<Rightarrow> DbComparator \<Rightarrow> error + int" where
  "specificityLoop [] a b = Inl (UnexpectedComparatorPair a b)"
| "specificityLoop (c # cs) a b =
     (if c = a then Inr (- 1) else if c = b then Inr 1 else specificityLoop cs a b)"

definition sortByFilterSpecificity :: "DbQuery \<Rightarrow> DbQuery \<Rightarrow> error + int" where
  "sortByFilterSpecificity a b =
     (let aComparator = comparator (getFilterStatement a);
          bComparator = comparator (getFilterStatement b)
      in if aComparator = bComparator then Inr 0
         else specificityLoop canUseIndex aComparator bComparator)"

text \<open>
  The position of a comparator in \<open>canUseIndex\<close>: on usable comparators
  \<open>sortByFilterSpecificity\<close> compares these positions (lemma \<open>sortByFilterSpecificity_rank\<close>),
  so the stable \<open>Array.prototype.sort\<close> with it is the stable sort by position.
\<close>

fun specificity :: "DbComparator \<Rightarrow> nat" where
  "specificity EQ = 0"
| "specificity IN = 1"
| "specificity GTE = 2"
| "specificity LTE = 3"
| "specificity GT = 4"
| "specificity LT = 5"
| "specificity NE = 6"
| "specificity NIN = 7"

definition getQueriesThatCanUseIndex :: "DbQuery list \<Rightarrow> DbQuery list" where
  "getQueriesThatCanUseIndex all =
     sort_key (\<lambda>q. specificity (comparator (getFilterStatement q)))
       (filter (\<lambda>q. comparator (getFilterStatement q) \<in> set canUseIndex) all)"

section \<open>Range extractor\<close>

fun isArray :: "JsValue \<Rightarrow> bool" where
  "isArray (JsArray xs) = True"
| "isArray v = False"

text \<open>\<open>typeof v === `object` && v !== null\<close>: arrays and other objects.\<close>

fun isObject :: "JsValue \<Rightarrow> bool" where
  "isObject (JsArray xs) = True"
| "isObject (JsObject s) = True"
| "isObject v = False"

definition toIndexFieldValue :: "DbComparatorValue \<Rightarrow> IDbFilterStatement \<Rightarrow> error + IndexFieldValue" where
  "toIndexFieldValue v flt =
     (if isObject v then Inl (BadFilterValue (comparator flt)) else Inr v)"

text \<open>
  \<open>findRangeEdge\<close> adds the clause it picks to the caller's \<open>usedQueries\<close> set: the model
  returns the updated set with the edge. \<open>None\<close> is the \<open>undefined\<close> returned when the
  loop ends without a match.
\<close>

fun findRangeEdge ::
  "DbQuery list \<Rightarrow> QuerySet \<Rightarrow> DbComparator \<Rightarrow> ValueEdges \<Rightarrow> error + (RangeValue option \<times> QuerySet)" where
  "findRangeEdge [] usedQueries c edge = Inr (None, usedQueries)"
| "findRangeEdge (dbQuery # queries) usedQueries c edge =
     (if dbQuery \<in> set usedQueries then findRangeEdge queries usedQueries c edge
      else if comparator (getFilterStatement dbQuery) \<noteq> c then findRangeEdge queries usedQueries c edge
      else
        (let used' = setAdd usedQueries dbQuery;
             v = filterValue (getFilterStatement dbQuery)
         in if isArray v then Inl (RangeFilterArrayValue c)
            else if isObject v then Inl (RangeFilterObjectValue c)
            else if edge = NONE then Inr (Some (Value v), used')
            else Inr (Some (if edge = BEFORE then getValueEdgeBefore v else getValueEdgeAfter v), used')))"

text \<open>The left operand of \<open>??\<close> is kept unless it is \<open>null\<close> or \<open>undefined\<close>.\<close>

fun nullish :: "RangeValue option \<Rightarrow> bool" where
  "nullish None = True"
| "nullish (Some (Value JsNull)) = True"
| "nullish (Some (Value JsUndefined)) = True"
| "nullish (Some v) = False"

fun orElse :: "RangeValue option \<Rightarrow> RangeValue \<Rightarrow> RangeValue" where
  "orElse None d = d"
| "orElse (Some v) d = (if nullish (Some v) then d else v)"

record ExtractResult =
  used :: QuerySet
  rangeStarts :: RangeBoundary
  rangeEndings :: RangeBoundary

text \<open>The \<open>for (const item of arr)\<close> loop of the \<open>EQ\<close>/\<open>IN\<close> case.\<close>

fun pushValues ::
  "DbComparatorValue list \<Rightarrow> IDbFilterStatement \<Rightarrow> bool \<times> RangeBoundary \<times> RangeBoundary
     \<Rightarrow> error + (bool \<times> RangeBoundary \<times> RangeBoundary)" where
  "pushValues [] flt acc = Inr acc"
| "pushValues (item # arr) flt (hasNull, starts, ends) =
     (case toIndexFieldValue item flt of
        Inl e \<Rightarrow> Inl e
      | Inr v \<Rightarrow>
          pushValues arr flt
            (hasNull \<or> v = JsNull, starts @ [Value v], ends @ [getValueEdgeAfter v]))"

text \<open>\<open>const arr = Array.isArray(filter.value) ? filter.value : [filter.value]\<close>\<close>

definition operandValues :: "DbComparatorValue \<Rightarrow> DbComparatorValue list" where
  "operandValues v = (case v of JsArray xs \<Rightarrow> xs | other \<Rightarrow> [v])"

definition extractEqIn :: "QuerySet \<Rightarrow> IDbFilterStatement \<Rightarrow> error + ExtractResult" where
  "extractEqIn usedQ flt =
     (let arr = operandValues (filterValue flt)
      in case pushValues arr flt (False, [], []) of
           Inl e \<Rightarrow> Inl e
         | Inr (hasNull, starts, ends) \<Rightarrow>
             if hasNull
             then Inr \<lparr>used = usedQ, rangeStarts = starts @ [Value undefinedSymbol],
                       rangeEndings = ends @ [getValueEdgeAfter undefinedSymbol]\<rparr>
             else Inr \<lparr>used = usedQ, rangeStarts = starts, rangeEndings = ends\<rparr>)"

definition extractLess ::
  "DbQuery list \<Rightarrow> QuerySet \<Rightarrow> IDbFilterStatement \<Rightarrow> error + ExtractResult" where
  "extractLess fieldQueries usedQ flt =
     (if isArray (filterValue flt) then Inl (ValueMustNotBeArray (comparator flt))
      else case toIndexFieldValue (filterValue flt) flt of
        Inl e \<Rightarrow> Inl e
      | Inr v \<Rightarrow>
         (let ending = (if comparator flt = LT then Value v else getValueEdgeAfter v)
          in case findRangeEdge fieldQueries usedQ GTE NONE of
               Inl e \<Rightarrow> Inl e
             | Inr (gte, used1) \<Rightarrow>
                (case (if nullish gte then findRangeEdge fieldQueries used1 GT AFTER
                       else Inr (gte, used1)) of
                   Inl e \<Rightarrow> Inl e
                 | Inr (start, used2) \<Rightarrow>
                    (let rangeHead = (if v = JsNull then BinaryInfinityNegative
                                      else getValueEdgeAfter undefinedSymbol)
                     in Inr \<lparr>used = used2, rangeStarts = [orElse start rangeHead],
                              rangeEndings = [ending]\<rparr>))))"

definition extractGreater ::
  "DbQuery list \<Rightarrow> QuerySet \<Rightarrow> IDbFilterStatement \<Rightarrow> error + ExtractResult" where
  "extractGreater fieldQueries usedQ flt =
     (if isArray (filterValue flt) then Inl (ValueMustNotBeArray (comparator flt))
      else case toIndexFieldValue (filterValue flt) flt of
        Inl e \<Rightarrow> Inl e
      | Inr v \<Rightarrow>
         (let start = (if comparator flt = GTE then Value v else getValueEdgeAfter v)
          in case findRangeEdge fieldQueries usedQ LTE AFTER of
               Inl e \<Rightarrow> Inl e
             | Inr (lte, used1) \<Rightarrow>
                (case (if nullish lte then findRangeEdge fieldQueries used1 LT NONE
                       else Inr (lte, used1)) of
                   Inl e \<Rightarrow> Inl e
                 | Inr (ending, used2) \<Rightarrow>
                    (let rangeTail = (if v = JsNull then getValueEdgeAfter JsNull
                                      else BinaryInfinityPositive)
                     in Inr \<lparr>used = used2, rangeStarts = [start],
                              rangeEndings = [orElse ending rangeTail]\<rparr>))))"

definition extractRanges :: "DbQuery list \<Rightarrow> string \<Rightarrow> error + ExtractResult" where
  "extractRanges queries indexField =
     (case filter (\<lambda>q. dbQueryToDottedField q = indexField) queries of
        [] \<Rightarrow> Inr \<lparr>used = [], rangeStarts = [], rangeEndings = []\<rparr>
      | bestMatchingQuery # others \<Rightarrow>
         (let fieldQueries = bestMatchingQuery # others;
              usedQ = setAdd [] bestMatchingQuery;
              flt = getFilterStatement bestMatchingQuery
          in if comparator flt = IN \<and> \<not> isArray (filterValue flt) then Inl InArgumentNotArray
             else case comparator flt of
                    EQ \<Rightarrow> extractEqIn usedQ flt
                  | IN \<Rightarrow> extractEqIn usedQ flt
                  | LT \<Rightarrow> extractLess fieldQueries usedQ flt
                  | LTE \<Rightarrow> extractLess fieldQueries usedQ flt
                  | GT \<Rightarrow> extractGreater fieldQueries usedQ flt
                  | GTE \<Rightarrow> extractGreater fieldQueries usedQ flt
                  | NE \<Rightarrow> Inl (UnsupportedComparator NE)
                  | NIN \<Rightarrow> Inl (UnsupportedComparator NIN)))"

section \<open>Range composer\<close>

text \<open>
  The \<open>for (const indexField of indexFields.keys())\<close> loop of \<open>getIndexRanges\<close>, on the
  accumulators \<open>usedQueries\<close>, \<open>rangeStarts\<close> and \<open>rangeEndings\<close>. The index fields are the
  keys of a \<open>Map\<close> in insertion order.
\<close>

fun collectRanges ::
  "DbQuery list \<Rightarrow> string list \<Rightarrow> QuerySet \<times> RangeBoundary list \<times> RangeBoundary list
     \<Rightarrow> error + (QuerySet \<times> RangeBoundary list \<times> RangeBoundary list)" where
  "collectRanges queriesThatCanUseIndex [] acc = Inr acc"
| "collectRanges queriesThatCanUseIndex (indexField # moreFields) (usedQueries, starts, ends) =
     (case extractRanges queriesThatCanUseIndex indexField of
        Inl e \<Rightarrow> Inl e
      | Inr result \<Rightarrow>
          if rangeStarts result = [] then Inr (usedQueries, starts, ends)
          else collectRanges queriesThatCanUseIndex moreFields
                 (foldl setAdd usedQueries (used result),
                  starts @ [rangeStarts result], ends @ [rangeEndings result]))"

text \<open>
  Modelled from the spec: \<open>cartesianProduct\<close> is imported from \<open>./common\<close>, which is not
  among the sources. The spec (4.4, 9) and the comment in \<open>getIndexRanges\<close> describe the
  cartesian product of the per-field lists, one tuple element per field in declared field
  order.
\<close>

fun cartesianProduct :: "'a list list \<Rightarrow> 'a list list" where
  "cartesianProduct [] = [[]]"
| "cartesianProduct (xs # xss) =
     concat (map (\<lambda>x. map (\<lambda>tuple. x # tuple) (cartesianProduct xss)) xs)"

text \<open>A JavaScript indexed read: \<open>undefined\<close> (\<open>None\<close>) out of range.\<close>

definition nthOpt :: "'a list \<Rightarrow> nat \<Rightarrow> 'a option" where
  "nthOpt xs i = (if i < length xs then Some (xs ! i) else None)"

record IndexRanges =
  usedQueries :: QuerySet
  ranges :: "IIndexRange list"

definition composeRanges :: "RangeBoundary list \<Rightarrow> RangeBoundary list \<Rightarrow> IIndexRange list" where
  "composeRanges rangeStartsProduct rangeEndingsProduct =
     map (\<lambda>i. \<lparr>rangeStart = rangeStartsProduct ! i, rangeEnd = nthOpt rangeEndingsProduct i\<rparr>)
       [0 ..< length rangeStartsProduct]"

definition getIndexRanges :: "DbQuery list \<Rightarrow> string list \<Rightarrow> error + IndexRanges" where
  "getIndexRanges dbQueries indexFields =
     (case collectRanges (getQueriesThatCanUseIndex dbQueries) indexFields ([], [], []) of
        Inl e \<Rightarrow> Inl e
      | Inr (usedQ, starts, ends) \<Rightarrow>
          if starts = [] then Inr \<lparr>usedQueries = usedQ, ranges = []\<rparr>
          else Inr \<lparr>usedQueries = usedQ,
                    ranges = composeRanges (cartesianProduct starts) (cartesianProduct ends)\<rparr>)"

section \<open>The key-value engine and the execution context\<close>

text \<open>
  JavaScript numbers are IEEE-754 doubles. The executor does arithmetic on one number only,
  the requested \<open>limit\<close>: it tests its truthiness (\<open>if (limit)\<close>) and multiplies it by
  \<open>maxKeysPerItem\<close> (\<open>limit *= maxKeysPerItem\<close>). The type \<open>'n\<close> of limits and these two
  operations are parameters of the model, so that nothing is assumed of the arithmetic:
  rounding, non-integral values and \<open>NaN\<close> are the parameter's. \<open>maxKeysPerItem\<close>, the offset
  and the key counts are integers.
\<close>

record 'n NumberOps =
  numTruthy :: "'n \<Rightarrow> bool"
  numTimes :: "'n \<Rightarrow> int \<Rightarrow> 'n"

text \<open>
  The options object handed to \<open>indexes.getRange\<close> and \<open>indexes.getKeysCount\<close>. A key the
  source leaves out of the object is \<open>None\<close> (\<open>limit\<close>, \<open>offset\<close>) or \<open>False\<close> (\<open>reverse\<close>).
\<close>

record 'n RangeOptions =
  scanStart :: RangeBoundary
  scanEnd :: RangeBoundary
  scanLimit :: "'n option"
  scanOffset :: "int option"
  scanReverse :: bool
  snapshot :: bool

text \<open>An \<open>IIndexEntry\<close>; its field \<open>value\<close>, a node identifier, is written \<open>nodeId\<close>.\<close>

record IIndexEntry =
  key :: IndexKey
  nodeId :: string

text \<open>
  The engine (\<open>databases.indexes\<close>) is an external collaborator: its two operations are
  parameters. Every call made to it is appended to a trace, so that what the engine was
  asked is part of the result.
\<close>

record 'n Indexes =
  getRange :: "'n RangeOptions \<Rightarrow> IIndexEntry list"
  getKeysCount :: "'n RangeOptions \<Rightarrow> int"

datatype 'n EngineCall = GetRange "'n RangeOptions" | GetKeysCount "'n RangeOptions"

record 'n IFilterContext =
  indexes :: "'n Indexes"
  dbQueries :: "DbQuery list"
  indexFields :: "string list"
  keyPrefix :: IndexFieldValue
  maxKeysPerItem :: int
  limit :: "'n option"
  offset :: "int option"
  reverse :: bool

text \<open>\<open>typeof v === `number` || typeof v === `string`\<close>\<close>

fun isNumberOrString :: "JsValue \<Rightarrow> bool" where
  "isNumberOrString (JsNumber n) = True"
| "isNumberOrString (JsString s) = True"
| "isNumberOrString v = False"

text \<open>
  \<open>getIdentifier\<close>: the last element of the key; reading \<open>key[key.length - 1]\<close> of an empty
  key gives \<open>undefined\<close>.
\<close>

definition getIdentifier :: "IIndexEntry \<Rightarrow> error + IndexFieldValue" where
  "getIdentifier entry =
     (let id = (if key entry = [] then JsUndefined else last (key entry))
      in if \<not> isNumberOrString id then Inl (BadIdentifier id) else Inr id)"

text \<open>
  Modelled from the spec: \<open>GatsbyIterable.deduplicate\<close> is imported from \<open>common/iterable\<close>,
  which is not among the sources. The spec (4.5) has it deduplicate by the key function's
  value, keeping the first occurrence; \<open>registered\<close> holds the identifiers seen so far. The
  lazy sequence is modelled by the list of all its entries, and by the error when the key
  function throws on one of them.
\<close>

fun deduplicateSeq :: "('a \<Rightarrow> error + 'k) \<Rightarrow> 'k list \<Rightarrow> 'a list \<Rightarrow> error + 'a list" where
  "deduplicateSeq keyFn registered [] = Inr []"
| "deduplicateSeq keyFn registered (current # source) =
     (case keyFn current of
        Inl e \<Rightarrow> Inl e
      | Inr k \<Rightarrow>
          if k \<in> set registered then deduplicateSeq keyFn registered source
          else (case deduplicateSeq keyFn (k # registered) source of
                  Inl e \<Rightarrow> Inl e
                | Inr rest \<Rightarrow> Inr (current # rest)))"

definition deduplicate :: "('a \<Rightarrow> error + 'k) \<Rightarrow> 'a list \<Rightarrow> error + 'a list" where
  "deduplicate keyFn source = deduplicateSeq keyFn [] source"

text \<open>
  What "deduplicated by \<open>f\<close>, keeping the first occurrence" says of a list, in the words
  of the claim on the executor: the first element is kept, the later elements with its
  \<open>f\<close>-value are dropped, and so on for the rest. The executor's result is compared with it.
\<close>

fun firstOccurrences :: "('a \<Rightarrow> 'k) \<Rightarrow> 'a list \<Rightarrow> 'a list" where
  "firstOccurrences f [] = []"
| "firstOccurrences f (x # xs) = x # firstOccurrences f (filter (\<lambda>y. f y \<noteq> f x) xs)"

section \<open>Range executor\<close>

record 'n IFilterResult =
  entries :: "error + IIndexEntry list"
  usedLimit :: "'n option"
  usedOffset :: int
  resultUsedQueries :: QuerySet

text \<open>\<open>if (limit)\<close>: \<open>undefined\<close> is falsy, a number is as the arithmetic says.\<close>

definition truthy :: "'n NumberOps \<Rightarrow> 'n option \<Rightarrow> bool" where
  "truthy ops l = (case l of None \<Rightarrow> False | Some n \<Rightarrow> numTruthy ops n)"

text \<open>
  The head of \<open>performRangeScan\<close>: \<open>let { limit, offset = 0 } = context\<close> and the
  \<open>if (limit)\<close> block, giving the limit and the offset used by every scan.
\<close>

definition limitAndOffset ::
  "'n NumberOps \<Rightarrow> 'n IFilterContext \<Rightarrow> IIndexRange list \<Rightarrow> 'n option \<times> int" where
  "limitAndOffset ops context rs =
     (let limit0 = limit context;
          offset0 = (case offset context of None \<Rightarrow> 0 | Some n \<Rightarrow> n)
      in if truthy ops limit0
         then (let offset1 = (if length rs > 1 then 0 else offset0);
                   limit1 = (if maxKeysPerItem context > 1
                             then map_option (\<lambda>l. numTimes ops l (maxKeysPerItem context)) limit0
                             else limit0)
               in (limit1, offset1))
         else (limit0, offset0))"

text \<open>
  The options object \<open>range\<close> built in the loop of \<open>performRangeScan\<close>: a reverse scan
  swaps the boundaries and passes \<open>reverse\<close>.
\<close>

definition scanOptions ::
  "'n IFilterContext \<Rightarrow> 'n option \<Rightarrow> int \<Rightarrow> RangeBoundary \<Rightarrow> RangeBoundary \<Rightarrow> 'n RangeOptions" where
  "scanOptions context lim off start ending =
     (if \<not> reverse context
      then \<lparr>scanStart = start, scanEnd = ending, scanLimit = lim,
            scanOffset = Some off, scanReverse = False, snapshot = False\<rparr>
      else \<lparr>scanStart = ending, scanEnd = start, scanLimit = lim,
            scanOffset = Some off, scanReverse = reverse context, snapshot = False\<rparr>)"

text \<open>
  The \<open>for (let { start, end } of ranges)\<close> loop of \<open>performRangeScan\<close>. Spreading an
  \<open>end\<close> that is \<open>undefined\<close> throws a \<open>TypeError\<close>.
\<close>

fun scanRanges ::
  "'n IFilterContext \<Rightarrow> 'n option \<Rightarrow> int \<Rightarrow> IIndexRange list
     \<Rightarrow> IIndexEntry list \<times> 'n EngineCall list
     \<Rightarrow> error + (IIndexEntry list \<times> 'n EngineCall list)" where
  "scanRanges context lim off [] acc = Inr acc"
| "scanRanges context lim off (r # rs) (found, trace) =
     (case rangeEnd r of
        None \<Rightarrow> Inl TypeErrorNotIterable
      | Some e \<Rightarrow>
         (let start = Value (keyPrefix context) # rangeStart r;
              ending = Value (keyPrefix context) # e;
              range = scanOptions context lim off start ending;
              matches = getRange (indexes context) range
          in scanRanges context lim off rs (found @ matches, trace @ [GetRange range])))"

definition performRangeScan ::
  "'n NumberOps \<Rightarrow> 'n IFilterContext \<Rightarrow> IIndexRange list \<Rightarrow> QuerySet
     \<Rightarrow> error + ('n IFilterResult \<times> 'n EngineCall list)" where
  "performRangeScan ops context rs usedQ =
     (case limitAndOffset ops context rs of
        (lim, off) \<Rightarrow>
          (case scanRanges context lim off rs ([], []) of
             Inl e \<Rightarrow> Inl e
           | Inr (found, trace) \<Rightarrow>
               Inr (\<lparr>entries = (if maxKeysPerItem context > 1
                                 then deduplicate getIdentifier found else Inr found),
                      usedLimit = lim, usedOffset = off, resultUsedQueries = usedQ\<rparr>,
                    trace)))"

definition performFullScan ::
  "'n IFilterContext \<Rightarrow> IndexFieldValue \<Rightarrow> bool
     \<Rightarrow> (error + IIndexEntry list) \<times> 'n EngineCall list" where
  "performFullScan context indexName isReverse =
     (let start = [Value indexName, getValueEdgeAfter undefinedSymbol];
          ending = [getValueEdgeAfter indexName];
          range1 = (if \<not> isReverse
                    then \<lparr>scanStart = start, scanEnd = ending, scanLimit = None,
                          scanOffset = None, scanReverse = False, snapshot = False\<rparr>
                    else \<lparr>scanStart = ending, scanEnd = start, scanLimit = None,
                          scanOffset = None, scanReverse = isReverse, snapshot = False\<rparr>);
          undefinedToEnd = getRange (indexes context) range1;
          ending2 = start;
          start2 = [Value indexName, Value JsNull];
          range2 = (if \<not> isReverse
                    then \<lparr>scanStart = start2, scanEnd = ending2, scanLimit = None,
                          scanOffset = None, scanReverse = False, snapshot = False\<rparr>
                    else \<lparr>scanStart = ending2, scanEnd = start2, scanLimit = None,
                          scanOffset = None, scanReverse = isReverse, snapshot = False\<rparr>);
          topToUndefined = getRange (indexes context) range2;
          result = (if \<not> isReverse then undefinedToEnd @ topToUndefined
                    else topToUndefined @ undefinedToEnd)
      in (deduplicate getIdentifier result, [GetRange range1, GetRange range2]))"

section \<open>Counter\<close>

text \<open>The options object handed to \<open>indexes.getKeysCount\<close>.\<close>

definition countOptions :: "RangeBoundary \<Rightarrow> RangeBoundary \<Rightarrow> 'n RangeOptions" where
  "countOptions start ending =
     \<lparr>scanStart = start, scanEnd = ending, scanLimit = None, scanOffset = None,
      scanReverse = False, snapshot = False\<rparr>"

text \<open>The \<open>for (let { start, end } of ranges)\<close> loop of \<open>countUsingIndex\<close>.\<close>

fun countRanges ::
  "'n IFilterContext \<Rightarrow> IIndexRange list \<Rightarrow> int \<times> 'n EngineCall list
     \<Rightarrow> error + (int \<times> 'n EngineCall list)" where
  "countRanges context [] acc = Inr acc"
| "countRanges context (r # rs) (count, trace) =
     (case rangeEnd r of
        None \<Rightarrow> Inl TypeErrorNotIterable
      | Some e \<Rightarrow>
         (let range = countOptions (Value (keyPrefix context) # rangeStart r)
                        (Value (keyPrefix context) # e)
          in countRanges context rs
               (count + getKeysCount (indexes context) range, trace @ [GetKeysCount range])))"

definition countUsingIndex :: "'n IFilterContext \<Rightarrow> error + (int \<times> 'n EngineCall list)" where
  "countUsingIndex context =
     (case getIndexRanges (dbQueries context) (indexFields context) of
        Inl e \<Rightarrow> Inl e
      | Inr plan \<Rightarrow>
          if length (usedQueries plan) \<noteq> length (dbQueries context) then Inl CannotCountUnresolved
          else if maxKeysPerItem context > 1 then Inl CannotCountMultiKey
          else if ranges plan = []
          then (let range = countOptions [Value (keyPrefix context)]
                               [getValueEdgeAfter (keyPrefix context)]
                in Inr (getKeysCount (indexes context) range, [GetKeysCount range]))
          else countRanges context (ranges plan) (0, []))"

section \<open>The filter pipeline\<close>

text \<open>
  \<open>filterUsingIndex\<close> binds \<open>result\<close> to what \<open>performRangeScan\<close> or \<open>performFullScan\<close>
  returns. It calls \<open>performFullScan(context)\<close> with one argument: the parameter
  \<open>indexName\<close> is \<open>undefined\<close> and \<open>reverse\<close> takes its default \<open>false\<close>. When some query
  is unused it calls \<open>narrowResultsIfPossible(context, result, usedQueries)\<close> with three
  arguments for five parameters: the parameter \<open>dbQueries\<close> is \<open>undefined\<close>, and the
  \<open>for (const query of dbQueries)\<close> loop of that function throws a \<open>TypeError\<close>.
\<close>

datatype 'n ScanResult =
  RangeScanResult "'n IFilterResult" | FullScanResult "error + IIndexEntry list"

definition filterUsingIndex ::
  "'n NumberOps \<Rightarrow> 'n IFilterContext
     \<Rightarrow> error + ((QuerySet \<times> 'n ScanResult) \<times> 'n EngineCall list)" where
  "filterUsingIndex ops context =
     (case getIndexRanges (dbQueries context) (indexFields context) of
        Inl e \<Rightarrow> Inl e
      | Inr plan \<Rightarrow>
         (case (if ranges plan \<noteq> []
                then (case performRangeScan ops context (ranges plan) (usedQueries plan) of
                        Inl e \<Rightarrow> Inl e
                      | Inr (res, trace) \<Rightarrow> Inr (RangeScanResult res, trace))
                else (case performFullScan context JsUndefined False of
                        (res, trace) \<Rightarrow> Inr (FullScanResult res, trace))) of
            Inl e \<Rightarrow> Inl e
          | Inr (result, trace) \<Rightarrow>
              if length (usedQueries plan) = length (dbQueries context)
              then Inr ((usedQueries plan, result), trace)
              else Inl TypeErrorNotIterable))"

text \<open>
  The options object that the loop of \<open>performRangeScan\<close>, and the one that the loop of
  \<open>countUsingIndex\<close>, builds for a range that has an end.
\<close>

definition rangeScanOptions ::
  "'n IFilterContext \<Rightarrow> 'n option \<Rightarrow> int \<Rightarrow> IIndexRange \<Rightarrow> 'n RangeOptions" where
  "rangeScanOptions context lim off r =
     scanOptions context lim off (Value (keyPrefix context) # rangeStart r)
       (Value (keyPrefix context) # the (rangeEnd r))"

definition rangeCountOptions :: "'n IFilterContext \<Rightarrow> IIndexRange \<Rightarrow> 'n RangeOptions" where
  "rangeCountOptions context r =
     countOptions (Value (keyPrefix context) # rangeStart r)
       (Value (keyPrefix context) # the (rangeEnd r))"

text \<open>A clause object, written with its reference, field path, comparator and operand.\<close>

abbreviation clause :: "nat \<Rightarrow> string \<Rightarrow> DbComparator \<Rightarrow> DbComparatorValue \<Rightarrow> DbQuery" where
  "clause i f c v \<equiv>
     \<lparr>ref = i, dottedField = f, filterStatement = \<lparr>comparator = c, filterValue = v\<rparr>\<rparr>"

text \<open>The comparator and the operand of a clause.\<close>

abbreviation hasComparator :: "DbComparator \<Rightarrow> DbQuery \<Rightarrow> bool" where
  "hasComparator c q \<equiv> comparator (getFilterStatement q) = c"

abbreviation operandOf :: "DbQuery \<Rightarrow> DbComparatorValue" where
  "operandOf q \<equiv> filterValue (getFilterStatement q)"

section \<open>Properties of the filter classifier\<close>

lemma specificityLoop_rank:
  "ca \<in> set canUseIndex \<Longrightarrow> cb \<in> set canUseIndex \<Longrightarrow> ca \<noteq> cb \<Longrightarrow>
   specificityLoop canUseIndex ca cb = Inr (if specificity ca < specificity cb then - 1 else 1)"
  by (cases ca; cases cb) (simp_all add: canUseIndex_def)

lemma sortByFilterSpecificity_rank:
  assumes "comparator (getFilterStatement a) \<in> set canUseIndex"
    and "comparator (getFilterStatement b) \<in> set canUseIndex"
  shows "sortByFilterSpecificity a b =
           Inr (if comparator (getFilterStatement a) = comparator (getFilterStatement b) then 0
                else if specificity (comparator (getFilterStatement a))
                        < specificity (comparator (getFilterStatement b)) then - 1
                else 1)"
  using assms specificityLoop_rank
  by (simp add: sortByFilterSpecificity_def Let_def)

section \<open>Properties of the range extractor\<close>

lemma pushValues_scalars:
  "\<forall>v \<in> set arr. \<not> isObject v \<Longrightarrow>
   pushValues arr flt (h, s, e) =
     Inr (h \<or> JsNull \<in> set arr, s @ map Value arr, e @ map getValueEdgeAfter arr)"
  by (induction arr arbitrary: h s e) (auto simp: toIndexFieldValue_def)

lemma pushValues_object:
  "\<exists>v \<in> set arr. isObject v \<Longrightarrow>
   pushValues arr flt (h, s, e) = Inl (BadFilterValue (comparator flt))"
  by (induction arr arbitrary: h s e) (auto simp: toIndexFieldValue_def)

lemma pushValues_lengths:
  "pushValues arr flt (h, s, e) = Inr (h', s', e') \<Longrightarrow> length s = length e \<Longrightarrow>
   length s' = length e'"
proof (induction arr arbitrary: h s e)
  case Nil
  then show ?case by simp
next
  case (Cons item arr)
  then show ?case
    by (cases "toIndexFieldValue item flt") auto
qed

text \<open>
  C1 (as amended). Let the first clause on the indexed field be an \<open>EQ\<close> or \<open>IN\<close> clause.
  An \<open>IN\<close> clause whose operand is not an array fails with the \<open>in\<close>-argument error, and
  nothing is pushed. Otherwise the operand values are the elements of the operand when it
  is an array (for \<open>EQ\<close> as for \<open>IN\<close>) and the operand itself when it is not; when none of
  them is an array or an object, \<open>extractRanges\<close> pushes for each value \<open>v\<close>, in order, the
  pair \<open>(v, edgeAfter v)\<close>, then the pair of \<open>undefinedSymbol\<close> when some value is \<open>null\<close>,
  and marks the clause used. When one of the operand values is an array or an object,
  \<open>extractRanges\<close> fails with the bad-filter-value error.
\<close>

theorem extractRanges_EQ_IN:
  assumes fq: "filter (\<lambda>q. dbQueryToDottedField q = indexField) queries = anchor # others"
    and flt: "flt = getFilterStatement anchor"
    and cmp: "comparator flt = EQ \<or> comparator flt = IN"
    and vs: "vs = operandValues (filterValue flt)"
  shows "(comparator flt = IN \<and> \<not> isArray (filterValue flt) \<longrightarrow>
            extractRanges queries indexField = Inl InArgumentNotArray)
       \<and> (\<not> (comparator flt = IN \<and> \<not> isArray (filterValue flt)) \<and> (\<forall>v \<in> set vs. \<not> isObject v) \<longrightarrow>
            extractRanges queries indexField =
              Inr \<lparr>used = [anchor],
                   rangeStarts = map Value vs @ (if JsNull \<in> set vs then [Value undefinedSymbol] else []),
                   rangeEndings = map getValueEdgeAfter vs
                     @ (if JsNull \<in> set vs then [getValueEdgeAfter undefinedSymbol] else [])\<rparr>)
       \<and> (\<not> (comparator flt = IN \<and> \<not> isArray (filterValue flt)) \<and> (\<exists>v \<in> set vs. isObject v) \<longrightarrow>
            extractRanges queries indexField = Inl (BadFilterValue (comparator flt)))"
proof (intro conjI impI)
  assume "comparator flt = IN \<and> \<not> isArray (filterValue flt)"
  then show "extractRanges queries indexField = Inl InArgumentNotArray"
    using fq flt by (simp add: extractRanges_def)
next
  assume a: "\<not> (comparator flt = IN \<and> \<not> isArray (filterValue flt)) \<and> (\<exists>v \<in> set vs. isObject v)"
  then have push: "pushValues vs flt (False, [], []) = Inl (BadFilterValue (comparator flt))"
    using pushValues_object [of vs flt False "[]" "[]"] by simp
  have eqin: "extractEqIn [anchor] flt = Inl (BadFilterValue (comparator flt))"
    using push vs by (simp add: extractEqIn_def)
  from cmp show "extractRanges queries indexField = Inl (BadFilterValue (comparator flt))"
    using fq flt a eqin by (auto simp: extractRanges_def setAdd_def)
next
  assume a: "\<not> (comparator flt = IN \<and> \<not> isArray (filterValue flt)) \<and> (\<forall>v \<in> set vs. \<not> isObject v)"
  then have push: "pushValues vs flt (False, [], []) =
      Inr (JsNull \<in> set vs, map Value vs, map getValueEdgeAfter vs)"
    using pushValues_scalars [of vs flt False "[]" "[]"] by simp
  have eqin: "extractEqIn [anchor] flt =
      Inr \<lparr>used = [anchor],
           rangeStarts = map Value vs @ (if JsNull \<in> set vs then [Value undefinedSymbol] else []),
           rangeEndings = map getValueEdgeAfter vs
             @ (if JsNull \<in> set vs then [getValueEdgeAfter undefinedSymbol] else [])\<rparr>"
    using push vs by (simp add: extractEqIn_def)
  from cmp show "extractRanges queries indexField =
      Inr \<lparr>used = [anchor],
           rangeStarts = map Value vs @ (if JsNull \<in> set vs then [Value undefinedSymbol] else []),
           rangeEndings = map getValueEdgeAfter vs
             @ (if JsNull \<in> set vs then [getValueEdgeAfter undefinedSymbol] else [])\<rparr>"
    using fq flt a eqin by (auto simp: extractRanges_def setAdd_def)
qed

text \<open>
  The theorem at \<open>{a: {in: [1, null]}}\<close>, which also pushes the pair of
  \<open>undefinedSymbol\<close>, at \<open>{a: {in: 1}}\<close>, which fails, and at \<open>{a: {in: [1, [2]]}}\<close>,
  whose second operand value is an array.
\<close>

theorem extractRanges_EQ_IN_witness:
  "extractRanges [clause 0 ''a'' IN (JsArray [JsNumber 1, JsNull])] ''a''
     = Inr \<lparr>used = [clause 0 ''a'' IN (JsArray [JsNumber 1, JsNull])],
            rangeStarts = [Value (JsNumber 1), Value JsNull, Value undefinedSymbol],
            rangeEndings = [RangeEdgeAfter (JsNumber 1), RangeEdgeAfter JsNull,
                            RangeEdgeAfter undefinedSymbol]\<rparr>
   \<and> extractRanges [clause 0 ''a'' IN (JsNumber 1)] ''a'' = Inl InArgumentNotArray
   \<and> extractRanges [clause 0 ''a'' IN (JsArray [JsNumber 1, JsArray [JsNumber 2]])] ''a''
     = Inl (BadFilterValue IN)"
proof -
  let ?q = "clause 0 ''a'' IN (JsArray [JsNumber 1, JsNull])"
  let ?p = "clause 0 ''a'' IN (JsNumber 1)"
  let ?o = "clause 0 ''a'' IN (JsArray [JsNumber 1, JsArray [JsNumber 2]])"
  have fq: "filter (\<lambda>q. dbQueryToDottedField q = ''a'') [?q] = ?q # []"
    by (simp add: dbQueryToDottedField_def)
  have fp: "filter (\<lambda>q. dbQueryToDottedField q = ''a'') [?p] = ?p # []"
    by (simp add: dbQueryToDottedField_def)
  have fo: "filter (\<lambda>q. dbQueryToDottedField q = ''a'') [?o] = ?o # []"
    by (simp add: dbQueryToDottedField_def)
  have cq: "comparator (getFilterStatement ?q) = EQ \<or> comparator (getFilterStatement ?q) = IN"
    by (simp add: getFilterStatement_def)
  have cp: "comparator (getFilterStatement ?p) = EQ \<or> comparator (getFilterStatement ?p) = IN"
    by (simp add: getFilterStatement_def)
  have co: "comparator (getFilterStatement ?o) = EQ \<or> comparator (getFilterStatement ?o) = IN"
    by (simp add: getFilterStatement_def)
  have vq: "[JsNumber 1, JsNull] = operandValues (filterValue (getFilterStatement ?q))"
    by (simp add: getFilterStatement_def operandValues_def)
  have vp: "[JsNumber 1] = operandValues (filterValue (getFilterStatement ?p))"
    by (simp add: getFilterStatement_def operandValues_def)
  have vo: "[JsNumber 1, JsArray [JsNumber 2]]
      = operandValues (filterValue (getFilterStatement ?o))"
    by (simp add: getFilterStatement_def operandValues_def)
  have a: "extractRanges [?q] ''a''
     = Inr \<lparr>used = [?q],
            rangeStarts = [Value (JsNumber 1), Value JsNull, Value undefinedSymbol],
            rangeEndings = [RangeEdgeAfter (JsNumber 1), RangeEdgeAfter JsNull,
                            RangeEdgeAfter undefinedSymbol]\<rparr>"
    using extractRanges_EQ_IN [OF fq refl cq vq]
    by (simp add: getFilterStatement_def getValueEdgeAfter_def)
  have b: "extractRanges [?p] ''a'' = Inl InArgumentNotArray"
    using extractRanges_EQ_IN [OF fp refl cp vp]
    by (simp add: getFilterStatement_def)
  have c: "extractRanges [?o] ''a'' = Inl (BadFilterValue IN)"
    using extractRanges_EQ_IN [OF fo refl co vo]
    by (simp add: getFilterStatement_def)
  from a b c show ?thesis by simp
qed

text \<open>
  C1 as stated fails: an \<open>EQ\<close> clause whose operand is an object (a regular expression)
  pushes no pair and fails in \<open>toIndexFieldValue\<close>, and an \<open>EQ\<close> clause whose operand is the
  array \<open>[1, 2]\<close> pushes one pair for each element, not one pair for the operand.
\<close>

theorem extractRanges_EQ_IN_counterexample:
  "extractRanges [clause 0 ''a'' EQ (JsObject ''/x/'')] ''a'' = Inl (BadFilterValue EQ)
   \<and> extractRanges [clause 0 ''a'' EQ (JsArray [JsNumber 1, JsNumber 2])] ''a''
     = Inr \<lparr>used = [clause 0 ''a'' EQ (JsArray [JsNumber 1, JsNumber 2])],
            rangeStarts = [Value (JsNumber 1), Value (JsNumber 2)],
            rangeEndings = [RangeEdgeAfter (JsNumber 1), RangeEdgeAfter (JsNumber 2)]\<rparr>"
  by (simp add: extractRanges_def extractEqIn_def operandValues_def toIndexFieldValue_def
      dbQueryToDottedField_def getFilterStatement_def setAdd_def getValueEdgeAfter_def)

lemma isArray_isObject: "isArray v \<Longrightarrow> isObject v"
  by (cases v) simp_all

lemma findRangeEdge_none:
  "find (hasComparator c) qs = None \<Longrightarrow> findRangeEdge qs u c e = Inr (None, u)"
  by (induction qs) (auto split: if_splits)

lemma findRangeEdge_some:
  assumes "find (hasComparator c) qs = Some g"
    and "\<forall>q \<in> set u. \<not> hasComparator c q"
    and "\<not> isObject (operandOf g)"
  shows "findRangeEdge qs u c e =
           Inr (Some (case e of NONE \<Rightarrow> Value (operandOf g)
                              | BEFORE \<Rightarrow> getValueEdgeBefore (operandOf g)
                              | AFTER \<Rightarrow> getValueEdgeAfter (operandOf g)), u @ [g])"
  using assms
proof (induction qs)
  case Nil
  then show ?case by simp
next
  case (Cons q qs)
  show ?case
  proof (cases "hasComparator c q")
    case True
    with Cons.prems have g: "g = q" by simp
    from True Cons.prems(2) have nu: "q \<notin> set u" by auto
    from Cons.prems(3) g have no: "\<not> isObject (operandOf q)" "\<not> isArray (operandOf q)"
      using isArray_isObject by auto
    show ?thesis using True g nu no
      by (cases e) (simp_all add: setAdd_def Let_def)
  next
    case False
    with Cons show ?thesis by simp
  qed
qed

lemma nullish_edge [simp]:
  "\<not> nullish (Some (getValueEdgeAfter v))" "\<not> nullish (Some (getValueEdgeBefore v))"
  by (simp_all add: getValueEdgeAfter_def getValueEdgeBefore_def)

lemma nullish_Value: "nullish (Some (Value v)) \<longleftrightarrow> v = JsNull \<or> v = JsUndefined"
  by (cases v) simp_all

lemma extractLess_cases:
  assumes c: "comparator flt = LT \<or> comparator flt = LTE"
    and a: "getFilterStatement anchor = flt"
    and v: "\<not> isObject (filterValue flt)"
  shows "(\<forall>g. find (hasComparator GTE) others = Some g \<and> \<not> isObject (operandOf g)
              \<and> operandOf g \<noteq> JsNull \<and> operandOf g \<noteq> JsUndefined \<longrightarrow>
            extractLess (anchor # others) [anchor] flt =
              Inr \<lparr>used = [anchor, g], rangeStarts = [Value (operandOf g)],
                   rangeEndings = [if comparator flt = LT then Value (filterValue flt)
                                   else getValueEdgeAfter (filterValue flt)]\<rparr>)
       \<and> (\<forall>g. find (hasComparator GTE) others = None \<and> find (hasComparator GT) others = Some g
              \<and> \<not> isObject (operandOf g) \<longrightarrow>
            extractLess (anchor # others) [anchor] flt =
              Inr \<lparr>used = [anchor, g], rangeStarts = [getValueEdgeAfter (operandOf g)],
                   rangeEndings = [if comparator flt = LT then Value (filterValue flt)
                                   else getValueEdgeAfter (filterValue flt)]\<rparr>)
       \<and> (find (hasComparator GTE) others = None \<and> find (hasComparator GT) others = None \<longrightarrow>
            extractLess (anchor # others) [anchor] flt =
              Inr \<lparr>used = [anchor],
                   rangeStarts = [if filterValue flt = JsNull then BinaryInfinityNegative
                                  else getValueEdgeAfter undefinedSymbol],
                   rangeEndings = [if comparator flt = LT then Value (filterValue flt)
                                   else getValueEdgeAfter (filterValue flt)]\<rparr>)"
proof -
  have na: "\<not> isArray (filterValue flt)" using v isArray_isObject by blast
  have tv: "toIndexFieldValue (filterValue flt) flt = Inr (filterValue flt)"
    using v by (simp add: toIndexFieldValue_def)
  have u1: "\<forall>q \<in> set [anchor]. \<not> hasComparator GTE q" using c a by auto
  have u2: "\<forall>q \<in> set [anchor]. \<not> hasComparator GT q" using c a by auto
  have f1: "find (hasComparator GTE) (anchor # others) = find (hasComparator GTE) others"
    using c a by auto
  have f2: "find (hasComparator GT) (anchor # others) = find (hasComparator GT) others"
    using c a by auto
  show ?thesis
  proof (intro conjI allI impI)
    fix g
    assume h: "find (hasComparator GTE) others = Some g \<and> \<not> isObject (operandOf g)
              \<and> operandOf g \<noteq> JsNull \<and> operandOf g \<noteq> JsUndefined"
    then have "findRangeEdge (anchor # others) [anchor] GTE NONE
        = Inr (Some (Value (operandOf g)), [anchor] @ [g])"
      using findRangeEdge_some [of GTE "anchor # others" g "[anchor]" NONE] f1 u1 by simp
    moreover have "\<not> nullish (Some (Value (operandOf g)))"
      using h by (simp add: nullish_Value)
    ultimately show "extractLess (anchor # others) [anchor] flt =
              Inr \<lparr>used = [anchor, g], rangeStarts = [Value (operandOf g)],
                   rangeEndings = [if comparator flt = LT then Value (filterValue flt)
                                   else getValueEdgeAfter (filterValue flt)]\<rparr>"
      using na tv by (simp add: extractLess_def)
  next
    fix g
    assume h: "find (hasComparator GTE) others = None \<and> find (hasComparator GT) others = Some g
              \<and> \<not> isObject (operandOf g)"
    then have r1: "findRangeEdge (anchor # others) [anchor] GTE NONE = Inr (None, [anchor])"
      using findRangeEdge_none [of GTE "anchor # others" "[anchor]" NONE] f1 by simp
    have r2: "findRangeEdge (anchor # others) [anchor] GT AFTER
        = Inr (Some (getValueEdgeAfter (operandOf g)), [anchor] @ [g])"
      using h findRangeEdge_some [of GT "anchor # others" g "[anchor]" AFTER] f2 u2 by simp
    show "extractLess (anchor # others) [anchor] flt =
              Inr \<lparr>used = [anchor, g], rangeStarts = [getValueEdgeAfter (operandOf g)],
                   rangeEndings = [if comparator flt = LT then Value (filterValue flt)
                                   else getValueEdgeAfter (filterValue flt)]\<rparr>"
      using na tv r1 r2 by (simp add: extractLess_def getValueEdgeAfter_def)
  next
    assume h: "find (hasComparator GTE) others = None \<and> find (hasComparator GT) others = None"
    then have r1: "findRangeEdge (anchor # others) [anchor] GTE NONE = Inr (None, [anchor])"
      using findRangeEdge_none [of GTE "anchor # others" "[anchor]" NONE] f1 by simp
    have r2: "findRangeEdge (anchor # others) [anchor] GT AFTER = Inr (None, [anchor])"
      using h findRangeEdge_none [of GT "anchor # others" "[anchor]" AFTER] f2 by simp
    show "extractLess (anchor # others) [anchor] flt =
              Inr \<lparr>used = [anchor],
                   rangeStarts = [if filterValue flt = JsNull then BinaryInfinityNegative
                                  else getValueEdgeAfter undefinedSymbol],
                   rangeEndings = [if comparator flt = LT then Value (filterValue flt)
                                   else getValueEdgeAfter (filterValue flt)]\<rparr>"
      using na tv r1 r2 by (simp add: extractLess_def)
  qed
qed


lemma extractGreater_cases:
  assumes c: "comparator flt = GT \<or> comparator flt = GTE"
    and a: "getFilterStatement anchor = flt"
    and v: "\<not> isObject (filterValue flt)"
  shows "(\<forall>g. find (hasComparator LTE) others = Some g \<and> \<not> isObject (operandOf g) \<longrightarrow>
            extractGreater (anchor # others) [anchor] flt =
              Inr \<lparr>used = [anchor, g],
                   rangeStarts = [if comparator flt = GTE then Value (filterValue flt)
                                  else getValueEdgeAfter (filterValue flt)],
                   rangeEndings = [getValueEdgeAfter (operandOf g)]\<rparr>)
       \<and> (\<forall>g. find (hasComparator LTE) others = None \<and> find (hasComparator LT) others = Some g
              \<and> \<not> isObject (operandOf g) \<and> operandOf g \<noteq> JsNull \<and> operandOf g \<noteq> JsUndefined \<longrightarrow>
            extractGreater (anchor # others) [anchor] flt =
              Inr \<lparr>used = [anchor, g],
                   rangeStarts = [if comparator flt = GTE then Value (filterValue flt)
                                  else getValueEdgeAfter (filterValue flt)],
                   rangeEndings = [Value (operandOf g)]\<rparr>)
       \<and> (find (hasComparator LTE) others = None \<and> find (hasComparator LT) others = None \<longrightarrow>
            extractGreater (anchor # others) [anchor] flt =
              Inr \<lparr>used = [anchor],
                   rangeStarts = [if comparator flt = GTE then Value (filterValue flt)
                                  else getValueEdgeAfter (filterValue flt)],
                   rangeEndings = [if filterValue flt = JsNull then getValueEdgeAfter JsNull
                                   else BinaryInfinityPositive]\<rparr>)"
proof -
  have na: "\<not> isArray (filterValue flt)" using v isArray_isObject by blast
  have tv: "toIndexFieldValue (filterValue flt) flt = Inr (filterValue flt)"
    using v by (simp add: toIndexFieldValue_def)
  have u1: "\<forall>q \<in> set [anchor]. \<not> hasComparator LTE q" using c a by auto
  have u2: "\<forall>q \<in> set [anchor]. \<not> hasComparator LT q" using c a by auto
  have f1: "find (hasComparator LTE) (anchor # others) = find (hasComparator LTE) others"
    using c a by auto
  have f2: "find (hasComparator LT) (anchor # others) = find (hasComparator LT) others"
    using c a by auto
  show ?thesis
  proof (intro conjI allI impI)
    fix g
    assume h: "find (hasComparator LTE) others = Some g \<and> \<not> isObject (operandOf g)"
    then have "findRangeEdge (anchor # others) [anchor] LTE AFTER
        = Inr (Some (getValueEdgeAfter (operandOf g)), [anchor] @ [g])"
      using findRangeEdge_some [of LTE "anchor # others" g "[anchor]" AFTER] f1 u1 by simp
    then show "extractGreater (anchor # others) [anchor] flt =
              Inr \<lparr>used = [anchor, g],
                   rangeStarts = [if comparator flt = GTE then Value (filterValue flt)
                                  else getValueEdgeAfter (filterValue flt)],
                   rangeEndings = [getValueEdgeAfter (operandOf g)]\<rparr>"
      using na tv by (simp add: extractGreater_def getValueEdgeAfter_def)
  next
    fix g
    assume h: "find (hasComparator LTE) others = None \<and> find (hasComparator LT) others = Some g
              \<and> \<not> isObject (operandOf g) \<and> operandOf g \<noteq> JsNull \<and> operandOf g \<noteq> JsUndefined"
    then have r1: "findRangeEdge (anchor # others) [anchor] LTE AFTER = Inr (None, [anchor])"
      using findRangeEdge_none [of LTE "anchor # others" "[anchor]" AFTER] f1 by simp
    have r2: "findRangeEdge (anchor # others) [anchor] LT NONE
        = Inr (Some (Value (operandOf g)), [anchor] @ [g])"
      using h findRangeEdge_some [of LT "anchor # others" g "[anchor]" NONE] f2 u2 by simp
    have nn: "\<not> nullish (Some (Value (operandOf g)))"
      using h by (simp add: nullish_Value)
    show "extractGreater (anchor # others) [anchor] flt =
              Inr \<lparr>used = [anchor, g],
                   rangeStarts = [if comparator flt = GTE then Value (filterValue flt)
                                  else getValueEdgeAfter (filterValue flt)],
                   rangeEndings = [Value (operandOf g)]\<rparr>"
      using na tv r1 r2 nn by (simp add: extractGreater_def)
  next
    assume h: "find (hasComparator LTE) others = None \<and> find (hasComparator LT) others = None"
    then have r1: "findRangeEdge (anchor # others) [anchor] LTE AFTER = Inr (None, [anchor])"
      using findRangeEdge_none [of LTE "anchor # others" "[anchor]" AFTER] f1 by simp
    have r2: "findRangeEdge (anchor # others) [anchor] LT NONE = Inr (None, [anchor])"
      using h findRangeEdge_none [of LT "anchor # others" "[anchor]" NONE] f2 by simp
    show "extractGreater (anchor # others) [anchor] flt =
              Inr \<lparr>used = [anchor],
                   rangeStarts = [if comparator flt = GTE then Value (filterValue flt)
                                  else getValueEdgeAfter (filterValue flt)],
                   rangeEndings = [if filterValue flt = JsNull then getValueEdgeAfter JsNull
                                   else BinaryInfinityPositive]\<rparr>"
      using na tv r1 r2 by (simp add: extractGreater_def)
  qed
qed

lemma extractRanges_less:
  assumes "filter (\<lambda>q. dbQueryToDottedField q = indexField) queries = anchor # others"
    and "getFilterStatement anchor = flt"
    and "comparator flt = LT \<or> comparator flt = LTE"
  shows "extractRanges queries indexField = extractLess (anchor # others) [anchor] flt"
  using assms by (auto simp: extractRanges_def setAdd_def)

lemma extractRanges_greater:
  assumes "filter (\<lambda>q. dbQueryToDottedField q = indexField) queries = anchor # others"
    and "getFilterStatement anchor = flt"
    and "comparator flt = GT \<or> comparator flt = GTE"
  shows "extractRanges queries indexField = extractGreater (anchor # others) [anchor] flt"
  using assms by (auto simp: extractRanges_def setAdd_def)

lemma findRangeEdge_object:
  assumes "find (hasComparator c) qs = Some g"
    and "\<forall>q \<in> set u. \<not> hasComparator c q"
    and "isObject (operandOf g)"
  shows "findRangeEdge qs u c e =
           Inl (if isArray (operandOf g) then RangeFilterArrayValue c
                else RangeFilterObjectValue c)"
  using assms
proof (induction qs)
  case Nil
  then show ?case by simp
next
  case (Cons q qs)
  show ?case
  proof (cases "hasComparator c q")
    case True
    with Cons.prems have g: "g = q" by simp
    from True Cons.prems(2) have nu: "q \<notin> set u" by auto
    show ?thesis using True g nu Cons.prems(3)
      by (simp add: Let_def)
  next
    case False
    with Cons show ?thesis by simp
  qed
qed

lemma extractLess_more:
  assumes c: "comparator flt = LT \<or> comparator flt = LTE"
    and a: "getFilterStatement anchor = flt"
    and v: "\<not> isObject (filterValue flt)"
  shows "(\<forall>g. find (hasComparator GTE) others = Some g \<and> isObject (operandOf g) \<longrightarrow>
            extractLess (anchor # others) [anchor] flt =
              Inl (if isArray (operandOf g) then RangeFilterArrayValue GTE
                   else RangeFilterObjectValue GTE))
       \<and> (\<forall>g. find (hasComparator GTE) others = None \<and> find (hasComparator GT) others = Some g
              \<and> isObject (operandOf g) \<longrightarrow>
            extractLess (anchor # others) [anchor] flt =
              Inl (if isArray (operandOf g) then RangeFilterArrayValue GT
                   else RangeFilterObjectValue GT))
       \<and> (\<forall>g. find (hasComparator GTE) others = Some g
              \<and> (operandOf g = JsNull \<or> operandOf g = JsUndefined)
              \<and> (\<forall>h. find (hasComparator GT) others = Some h \<longrightarrow> \<not> isObject (operandOf h)) \<longrightarrow>
            (\<exists>r. extractLess (anchor # others) [anchor] flt = Inr r
                 \<and> length (rangeStarts r) = 1
                 \<and> rangeEndings r = [if comparator flt = LT then Value (filterValue flt)
                                      else getValueEdgeAfter (filterValue flt)]
                 \<and> anchor \<in> set (used r) \<and> g \<in> set (used r)))
       \<and> (\<forall>g h. find (hasComparator GTE) others = Some g
              \<and> (operandOf g = JsNull \<or> operandOf g = JsUndefined)
              \<and> find (hasComparator GT) others = Some h \<and> isObject (operandOf h) \<longrightarrow>
            extractLess (anchor # others) [anchor] flt =
              Inl (if isArray (operandOf h) then RangeFilterArrayValue GT
                   else RangeFilterObjectValue GT))"
proof -
  have na: "\<not> isArray (filterValue flt)" using v isArray_isObject by blast
  have tv: "toIndexFieldValue (filterValue flt) flt = Inr (filterValue flt)"
    using v by (simp add: toIndexFieldValue_def)
  have u1: "\<forall>q \<in> set [anchor]. \<not> hasComparator GTE q" using c a by auto
  have u2: "\<forall>q \<in> set [anchor]. \<not> hasComparator GT q" using c a by auto
  have f1: "find (hasComparator GTE) (anchor # others) = find (hasComparator GTE) others"
    using c a by auto
  have f2: "find (hasComparator GT) (anchor # others) = find (hasComparator GT) others"
    using c a by auto
  show ?thesis
  proof (intro conjI allI impI)
    fix g
    assume h: "find (hasComparator GTE) others = Some g \<and> isObject (operandOf g)"
    then have "findRangeEdge (anchor # others) [anchor] GTE NONE
        = Inl (if isArray (operandOf g) then RangeFilterArrayValue GTE
               else RangeFilterObjectValue GTE)"
      using findRangeEdge_object [of GTE "anchor # others" g "[anchor]" NONE] f1 u1 by simp
    then show "extractLess (anchor # others) [anchor] flt =
              Inl (if isArray (operandOf g) then RangeFilterArrayValue GTE
                   else RangeFilterObjectValue GTE)"
      using na tv by (simp add: extractLess_def)
  next
    fix g
    assume h: "find (hasComparator GTE) others = None \<and> find (hasComparator GT) others = Some g
              \<and> isObject (operandOf g)"
    then have r1: "findRangeEdge (anchor # others) [anchor] GTE NONE = Inr (None, [anchor])"
      using findRangeEdge_none [of GTE "anchor # others" "[anchor]" NONE] f1 by simp
    have r2: "findRangeEdge (anchor # others) [anchor] GT AFTER
        = Inl (if isArray (operandOf g) then RangeFilterArrayValue GT
               else RangeFilterObjectValue GT)"
      using h findRangeEdge_object [of GT "anchor # others" g "[anchor]" AFTER] f2 u2 by simp
    show "extractLess (anchor # others) [anchor] flt =
              Inl (if isArray (operandOf g) then RangeFilterArrayValue GT
                   else RangeFilterObjectValue GT)"
      using na tv r1 r2 by (simp add: extractLess_def)
  next
    fix g
    assume h: "find (hasComparator GTE) others = Some g
              \<and> (operandOf g = JsNull \<or> operandOf g = JsUndefined)
              \<and> (\<forall>h. find (hasComparator GT) others = Some h \<longrightarrow> \<not> isObject (operandOf h))"
    then have so: "\<not> isObject (operandOf g)" by auto
    have r1: "findRangeEdge (anchor # others) [anchor] GTE NONE
        = Inr (Some (Value (operandOf g)), [anchor, g])"
      using h so findRangeEdge_some [of GTE "anchor # others" g "[anchor]" NONE] f1 u1 by simp
    have nl: "nullish (Some (Value (operandOf g)))"
      using h by (simp add: nullish_Value)
    from h have cg: "hasComparator GTE g" by (auto simp: find_Some_iff)
    have u3: "\<forall>q \<in> set [anchor, g]. \<not> hasComparator GT q" using c a cg by auto
    let ?ending = "if comparator flt = LT then Value (filterValue flt)
                   else getValueEdgeAfter (filterValue flt)"
    show "\<exists>r. extractLess (anchor # others) [anchor] flt = Inr r
                 \<and> length (rangeStarts r) = 1
                 \<and> rangeEndings r = [?ending]
                 \<and> anchor \<in> set (used r) \<and> g \<in> set (used r)"
    proof (cases "find (hasComparator GT) others")
      case None
      then have r2: "findRangeEdge (anchor # others) [anchor, g] GT AFTER = Inr (None, [anchor, g])"
        using findRangeEdge_none [of GT "anchor # others" "[anchor, g]" AFTER] f2 by simp
      have "extractLess (anchor # others) [anchor] flt =
          Inr \<lparr>used = [anchor, g],
               rangeStarts = [if filterValue flt = JsNull then BinaryInfinityNegative
                              else getValueEdgeAfter undefinedSymbol],
               rangeEndings = [?ending]\<rparr>"
        using na tv r1 nl r2 by (simp add: extractLess_def)
      then show ?thesis by simp
    next
      case (Some k)
      with h have sk: "\<not> isObject (operandOf k)" by simp
      have r2: "findRangeEdge (anchor # others) [anchor, g] GT AFTER
          = Inr (Some (getValueEdgeAfter (operandOf k)), [anchor, g] @ [k])"
        using Some sk findRangeEdge_some [of GT "anchor # others" k "[anchor, g]" AFTER] f2 u3
        by simp
      have "extractLess (anchor # others) [anchor] flt =
          Inr \<lparr>used = [anchor, g, k],
               rangeStarts = [getValueEdgeAfter (operandOf k)],
               rangeEndings = [?ending]\<rparr>"
        using na tv r1 nl r2 by (simp add: extractLess_def getValueEdgeAfter_def)
      then show ?thesis by simp
    qed
  next
    fix g h
    assume h: "find (hasComparator GTE) others = Some g
              \<and> (operandOf g = JsNull \<or> operandOf g = JsUndefined)
              \<and> find (hasComparator GT) others = Some h \<and> isObject (operandOf h)"
    then have so: "\<not> isObject (operandOf g)" by auto
    have r1: "findRangeEdge (anchor # others) [anchor] GTE NONE
        = Inr (Some (Value (operandOf g)), [anchor, g])"
      using h so findRangeEdge_some [of GTE "anchor # others" g "[anchor]" NONE] f1 u1 by simp
    have nl: "nullish (Some (Value (operandOf g)))"
      using h by (simp add: nullish_Value)
    from h have cg: "hasComparator GTE g" by (auto simp: find_Some_iff)
    have u3: "\<forall>q \<in> set [anchor, g]. \<not> hasComparator GT q" using c a cg by auto
    have r2: "findRangeEdge (anchor # others) [anchor, g] GT AFTER
        = Inl (if isArray (operandOf h) then RangeFilterArrayValue GT
               else RangeFilterObjectValue GT)"
      using h findRangeEdge_object [of GT "anchor # others" h "[anchor, g]" AFTER] f2 u3 by simp
    show "extractLess (anchor # others) [anchor] flt =
              Inl (if isArray (operandOf h) then RangeFilterArrayValue GT
                   else RangeFilterObjectValue GT)"
      using na tv r1 nl r2 by (simp add: extractLess_def)
  qed
qed

lemma extractGreater_more:
  assumes c: "comparator flt = GT \<or> comparator flt = GTE"
    and a: "getFilterStatement anchor = flt"
    and v: "\<not> isObject (filterValue flt)"
  shows "(\<forall>g. find (hasComparator LTE) others = Some g \<and> isObject (operandOf g) \<longrightarrow>
            extractGreater (anchor # others) [anchor] flt =
              Inl (if isArray (operandOf g) then RangeFilterArrayValue LTE
                   else RangeFilterObjectValue LTE))
       \<and> (\<forall>g. find (hasComparator LTE) others = None \<and> find (hasComparator LT) others = Some g
              \<and> isObject (operandOf g) \<longrightarrow>
            extractGreater (anchor # others) [anchor] flt =
              Inl (if isArray (operandOf g) then RangeFilterArrayValue LT
                   else RangeFilterObjectValue LT))
       \<and> (\<forall>g. find (hasComparator LTE) others = None \<and> find (hasComparator LT) others = Some g
              \<and> (operandOf g = JsNull \<or> operandOf g = JsUndefined) \<longrightarrow>
            (\<exists>r. extractGreater (anchor # others) [anchor] flt = Inr r
                 \<and> rangeStarts r = [if comparator flt = GTE then Value (filterValue flt)
                                     else getValueEdgeAfter (filterValue flt)]
                 \<and> length (rangeEndings r) = 1
                 \<and> anchor \<in> set (used r) \<and> g \<in> set (used r)))"
proof -
  have na: "\<not> isArray (filterValue flt)" using v isArray_isObject by blast
  have tv: "toIndexFieldValue (filterValue flt) flt = Inr (filterValue flt)"
    using v by (simp add: toIndexFieldValue_def)
  have u1: "\<forall>q \<in> set [anchor]. \<not> hasComparator LTE q" using c a by auto
  have u2: "\<forall>q \<in> set [anchor]. \<not> hasComparator LT q" using c a by auto
  have f1: "find (hasComparator LTE) (anchor # others) = find (hasComparator LTE) others"
    using c a by auto
  have f2: "find (hasComparator LT) (anchor # others) = find (hasComparator LT) others"
    using c a by auto
  show ?thesis
  proof (intro conjI allI impI)
    fix g
    assume h: "find (hasComparator LTE) others = Some g \<and> isObject (operandOf g)"
    then have "findRangeEdge (anchor # others) [anchor] LTE AFTER
        = Inl (if isArray (operandOf g) then RangeFilterArrayValue LTE
               else RangeFilterObjectValue LTE)"
      using findRangeEdge_object [of LTE "anchor # others" g "[anchor]" AFTER] f1 u1 by simp
    then show "extractGreater (anchor # others) [anchor] flt =
              Inl (if isArray (operandOf g) then RangeFilterArrayValue LTE
                   else RangeFilterObjectValue LTE)"
      using na tv by (simp add: extractGreater_def)
  next
    fix g
    assume h: "find (hasComparator LTE) others = None \<and> find (hasComparator LT) others = Some g
              \<and> isObject (operandOf g)"
    then have r1: "findRangeEdge (anchor # others) [anchor] LTE AFTER = Inr (None, [anchor])"
      using findRangeEdge_none [of LTE "anchor # others" "[anchor]" AFTER] f1 by simp
    have r2: "findRangeEdge (anchor # others) [anchor] LT NONE
        = Inl (if isArray (operandOf g) then RangeFilterArrayValue LT
               else RangeFilterObjectValue LT)"
      using h findRangeEdge_object [of LT "anchor # others" g "[anchor]" NONE] f2 u2 by simp
    show "extractGreater (anchor # others) [anchor] flt =
              Inl (if isArray (operandOf g) then RangeFilterArrayValue LT
                   else RangeFilterObjectValue LT)"
      using na tv r1 r2 by (simp add: extractGreater_def)
  next
    fix g
    assume h: "find (hasComparator LTE) others = None \<and> find (hasComparator LT) others = Some g
              \<and> (operandOf g = JsNull \<or> operandOf g = JsUndefined)"
    then have so: "\<not> isObject (operandOf g)" by auto
    from h have r1: "findRangeEdge (anchor # others) [anchor] LTE AFTER = Inr (None, [anchor])"
      using findRangeEdge_none [of LTE "anchor # others" "[anchor]" AFTER] f1 by simp
    have r2: "findRangeEdge (anchor # others) [anchor] LT NONE
        = Inr (Some (Value (operandOf g)), [anchor, g])"
      using h so findRangeEdge_some [of LT "anchor # others" g "[anchor]" NONE] f2 u2 by simp
    have nl: "nullish (Some (Value (operandOf g)))"
      using h by (simp add: nullish_Value)
    have "extractGreater (anchor # others) [anchor] flt =
          Inr \<lparr>used = [anchor, g],
               rangeStarts = [if comparator flt = GTE then Value (filterValue flt)
                              else getValueEdgeAfter (filterValue flt)],
               rangeEndings = [if filterValue flt = JsNull then getValueEdgeAfter JsNull
                               else BinaryInfinityPositive]\<rparr>"
      using na tv r1 r2 nl by (simp add: extractGreater_def)
    then show "\<exists>r. extractGreater (anchor # others) [anchor] flt = Inr r
                 \<and> rangeStarts r = [if comparator flt = GTE then Value (filterValue flt)
                                     else getValueEdgeAfter (filterValue flt)]
                 \<and> length (rangeEndings r) = 1
                 \<and> anchor \<in> set (used r) \<and> g \<in> set (used r)"
      by simp
  qed
qed

lemma extractRanges_anchor_errors:
  assumes fq: "filter (\<lambda>q. dbQueryToDottedField q = indexField) queries = anchor # others"
    and flt: "getFilterStatement anchor = flt"
    and c: "comparator flt = LT \<or> comparator flt = LTE \<or> comparator flt = GT \<or> comparator flt = GTE"
  shows "(isArray (filterValue flt) \<longrightarrow>
            extractRanges queries indexField = Inl (ValueMustNotBeArray (comparator flt)))
       \<and> (\<not> isArray (filterValue flt) \<and> isObject (filterValue flt) \<longrightarrow>
            extractRanges queries indexField = Inl (BadFilterValue (comparator flt)))"
  using assms
  by (auto simp: extractRanges_def extractLess_def extractGreater_def toIndexFieldValue_def
      setAdd_def)

text \<open>
  C2 (as amended). Let the first clause on the indexed field (the anchor) be a range
  comparator. An anchor whose operand is an array or an object fails with an error.
  Otherwise, for an \<open>LT\<close>/\<open>LTE\<close> anchor the end is the operand (\<open>LT\<close>) or its edge-after
  (\<open>LTE\<close>), and the complementary clause is the first \<open>GTE\<close> clause on the field or, when
  there is none, the first \<open>GT\<close> clause; for a \<open>GT\<close>/\<open>GTE\<close> anchor the start is the
  edge-after of the operand (\<open>GT\<close>) or the operand (\<open>GTE\<close>), and the complementary clause is
  the first \<open>LTE\<close> clause or, when there is none, the first \<open>LT\<close> clause. A complementary
  clause whose operand is an array or an object is an error, and so is a \<open>GT\<close> clause with
  such an operand behind a \<open>GTE\<close> clause whose operand is \<open>null\<close> or \<open>undefined\<close>. Otherwise
  \<open>extractRanges\<close>
  returns exactly one start and one end and marks the complementary clause used with the
  anchor. The missing bound is the operand of the \<open>GTE\<close> (\<open>LT\<close>) clause, when it is neither
  \<open>null\<close> nor \<open>undefined\<close>, the edge-after of the operand of the \<open>GT\<close> (\<open>LTE\<close>) clause, or,
  with no complementary clause, the rail: below, \<open>BinaryInfinityNegative\<close> for a \<open>null\<close>
  anchor operand and the edge-after of \<open>undefinedSymbol\<close> otherwise; above, the edge-after
  of \<open>null\<close> for a \<open>null\<close> anchor operand and \<open>BinaryInfinityPositive\<close> otherwise. For a
  \<open>GTE\<close> (\<open>LT\<close>) clause whose operand is \<open>null\<close> or \<open>undefined\<close> the statement gives the
  one pair, the known bound and the used clauses, and leaves the missing bound open.
\<close>

theorem extractRanges_range_pairing:
  assumes fq: "filter (\<lambda>q. dbQueryToDottedField q = indexField) queries = anchor # others"
    and flt: "getFilterStatement anchor = flt"
  shows
    "(comparator flt = LT \<or> comparator flt = LTE \<or> comparator flt = GT \<or> comparator flt = GTE \<longrightarrow>
       (isArray (filterValue flt) \<longrightarrow>
          extractRanges queries indexField = Inl (ValueMustNotBeArray (comparator flt)))
     \<and> (\<not> isArray (filterValue flt) \<and> isObject (filterValue flt) \<longrightarrow>
          extractRanges queries indexField = Inl (BadFilterValue (comparator flt))))
   \<and> (\<not> isObject (filterValue flt) \<and> (comparator flt = LT \<or> comparator flt = LTE) \<longrightarrow>
       (\<forall>g. find (hasComparator GTE) others = Some g \<and> isObject (operandOf g) \<longrightarrow>
            extractRanges queries indexField =
              Inl (if isArray (operandOf g) then RangeFilterArrayValue GTE
                   else RangeFilterObjectValue GTE))
       \<and> (\<forall>g. find (hasComparator GTE) others = Some g \<and> \<not> isObject (operandOf g)
              \<and> operandOf g \<noteq> JsNull \<and> operandOf g \<noteq> JsUndefined \<longrightarrow>
            extractRanges queries indexField =
              Inr \<lparr>used = [anchor, g], rangeStarts = [Value (operandOf g)],
                   rangeEndings = [if comparator flt = LT then Value (filterValue flt)
                                   else getValueEdgeAfter (filterValue flt)]\<rparr>)
       \<and> (\<forall>g. find (hasComparator GTE) others = Some g
              \<and> (operandOf g = JsNull \<or> operandOf g = JsUndefined)
              \<and> (\<forall>h. find (hasComparator GT) others = Some h \<longrightarrow> \<not> isObject (operandOf h)) \<longrightarrow>
            (\<exists>r. extractRanges queries indexField = Inr r
                 \<and> length (rangeStarts r) = 1
                 \<and> rangeEndings r = [if comparator flt = LT then Value (filterValue flt)
                                      else getValueEdgeAfter (filterValue flt)]
                 \<and> anchor \<in> set (used r) \<and> g \<in> set (used r)))
       \<and> (\<forall>g h. find (hasComparator GTE) others = Some g
              \<and> (operandOf g = JsNull \<or> operandOf g = JsUndefined)
              \<and> find (hasComparator GT) others = Some h \<and> isObject (operandOf h) \<longrightarrow>
            extractRanges queries indexField =
              Inl (if isArray (operandOf h) then RangeFilterArrayValue GT
                   else RangeFilterObjectValue GT))
       \<and> (\<forall>g. find (hasComparator GTE) others = None \<and> find (hasComparator GT) others = Some g
              \<and> isObject (operandOf g) \<longrightarrow>
            extractRanges queries indexField =
              Inl (if isArray (operandOf g) then RangeFilterArrayValue GT
                   else RangeFilterObjectValue GT))
       \<and> (\<forall>g. find (hasComparator GTE) others = None \<and> find (hasComparator GT) others = Some g
              \<and> \<not> isObject (operandOf g) \<longrightarrow>
            extractRanges queries indexField =
              Inr \<lparr>used = [anchor, g], rangeStarts = [getValueEdgeAfter (operandOf g)],
                   rangeEndings = [if comparator flt = LT then Value (filterValue flt)
                                   else getValueEdgeAfter (filterValue flt)]\<rparr>)
       \<and> (find (hasComparator GTE) others = None \<and> find (hasComparator GT) others = None \<longrightarrow>
            extractRanges queries indexField =
              Inr \<lparr>used = [anchor],
                   rangeStarts = [if filterValue flt = JsNull then BinaryInfinityNegative
                                  else getValueEdgeAfter undefinedSymbol],
                   rangeEndings = [if comparator flt = LT then Value (filterValue flt)
                                   else getValueEdgeAfter (filterValue flt)]\<rparr>))
   \<and> (\<not> isObject (filterValue flt) \<and> (comparator flt = GT \<or> comparator flt = GTE) \<longrightarrow>
       (\<forall>g. find (hasComparator LTE) others = Some g \<and> isObject (operandOf g) \<longrightarrow>
            extractRanges queries indexField =
              Inl (if isArray (operandOf g) then RangeFilterArrayValue LTE
                   else RangeFilterObjectValue LTE))
       \<and> (\<forall>g. find (hasComparator LTE) others = Some g \<and> \<not> isObject (operandOf g) \<longrightarrow>
            extractRanges queries indexField =
              Inr \<lparr>used = [anchor, g],
                   rangeStarts = [if comparator flt = GTE then Value (filterValue flt)
                                  else getValueEdgeAfter (filterValue flt)],
                   rangeEndings = [getValueEdgeAfter (operandOf g)]\<rparr>)
       \<and> (\<forall>g. find (hasComparator LTE) others = None \<and> find (hasComparator LT) others = Some g
              \<and> isObject (operandOf g) \<longrightarrow>
            extractRanges queries indexField =
              Inl (if isArray (operandOf g) then RangeFilterArrayValue LT
                   else RangeFilterObjectValue LT))
       \<and> (\<forall>g. find (hasComparator LTE) others = None \<and> find (hasComparator LT) others = Some g
              \<and> \<not> isObject (operandOf g) \<and> operandOf g \<noteq> JsNull \<and> operandOf g \<noteq> JsUndefined \<longrightarrow>
            extractRanges queries indexField =
              Inr \<lparr>used = [anchor, g],
                   rangeStarts = [if comparator flt = GTE then Value (filterValue flt)
                                  else getValueEdgeAfter (filterValue flt)],
                   rangeEndings = [Value (operandOf g)]\<rparr>)
       \<and> (\<forall>g. find (hasComparator LTE) others = None \<and> find (hasComparator LT) others = Some g
              \<and> (operandOf g = JsNull \<or> operandOf g = JsUndefined) \<longrightarrow>
            (\<exists>r. extractRanges queries indexField = Inr r
                 \<and> rangeStarts r = [if comparator flt = GTE then Value (filterValue flt)
                                     else getValueEdgeAfter (filterValue flt)]
                 \<and> length (rangeEndings r) = 1
                 \<and> anchor \<in> set (used r) \<and> g \<in> set (used r)))
       \<and> (find (hasComparator LTE) others = None \<and> find (hasComparator LT) others = None \<longrightarrow>
            extractRanges queries indexField =
              Inr \<lparr>used = [anchor],
                   rangeStarts = [if comparator flt = GTE then Value (filterValue flt)
                                  else getValueEdgeAfter (filterValue flt)],
                   rangeEndings = [if filterValue flt = JsNull then getValueEdgeAfter JsNull
                                   else BinaryInfinityPositive]\<rparr>))"
proof -
  have E: "comparator flt = LT \<or> comparator flt = LTE \<or> comparator flt = GT \<or> comparator flt = GTE \<longrightarrow>
       (isArray (filterValue flt) \<longrightarrow>
          extractRanges queries indexField = Inl (ValueMustNotBeArray (comparator flt)))
     \<and> (\<not> isArray (filterValue flt) \<and> isObject (filterValue flt) \<longrightarrow>
          extractRanges queries indexField = Inl (BadFilterValue (comparator flt)))"
    using extractRanges_anchor_errors [OF fq flt] by blast
  have L: "\<not> isObject (filterValue flt) \<and> (comparator flt = LT \<or> comparator flt = LTE) \<longrightarrow>
       (\<forall>g. find (hasComparator GTE) others = Some g \<and> isObject (operandOf g) \<longrightarrow>
            extractRanges queries indexField =
              Inl (if isArray (operandOf g) then RangeFilterArrayValue GTE
                   else RangeFilterObjectValue GTE))
       \<and> (\<forall>g. find (hasComparator GTE) others = Some g \<and> \<not> isObject (operandOf g)
              \<and> operandOf g \<noteq> JsNull \<and> operandOf g \<noteq> JsUndefined \<longrightarrow>
            extractRanges queries indexField =
              Inr \<lparr>used = [anchor, g], rangeStarts = [Value (operandOf g)],
                   rangeEndings = [if comparator flt = LT then Value (filterValue flt)
                                   else getValueEdgeAfter (filterValue flt)]\<rparr>)
       \<and> (\<forall>g. find (hasComparator GTE) others = Some g
              \<and> (operandOf g = JsNull \<or> operandOf g = JsUndefined)
              \<and> (\<forall>h. find (hasComparator GT) others = Some h \<longrightarrow> \<not> isObject (operandOf h)) \<longrightarrow>
            (\<exists>r. extractRanges queries indexField = Inr r
                 \<and> length (rangeStarts r) = 1
                 \<and> rangeEndings r = [if comparator flt = LT then Value (filterValue flt)
                                      else getValueEdgeAfter (filterValue flt)]
                 \<and> anchor \<in> set (used r) \<and> g \<in> set (used r)))
       \<and> (\<forall>g h. find (hasComparator GTE) others = Some g
              \<and> (operandOf g = JsNull \<or> operandOf g = JsUndefined)
              \<and> find (hasComparator GT) others = Some h \<and> isObject (operandOf h) \<longrightarrow>
            extractRanges queries indexField =
              Inl (if isArray (operandOf h) then RangeFilterArrayValue GT
                   else RangeFilterObjectValue GT))
       \<and> (\<forall>g. find (hasComparator GTE) others = None \<and> find (hasComparator GT) others = Some g
              \<and> isObject (operandOf g) \<longrightarrow>
            extractRanges queries indexField =
              Inl (if isArray (operandOf g) then RangeFilterArrayValue GT
                   else RangeFilterObjectValue GT))
       \<and> (\<forall>g. find (hasComparator GTE) others = None \<and> find (hasComparator GT) others = Some g
              \<and> \<not> isObject (operandOf g) \<longrightarrow>
            extractRanges queries indexField =
              Inr \<lparr>used = [anchor, g], rangeStarts = [getValueEdgeAfter (operandOf g)],
                   rangeEndings = [if comparator flt = LT then Value (filterValue flt)
                                   else getValueEdgeAfter (filterValue flt)]\<rparr>)
       \<and> (find (hasComparator GTE) others = None \<and> find (hasComparator GT) others = None \<longrightarrow>
            extractRanges queries indexField =
              Inr \<lparr>used = [anchor],
                   rangeStarts = [if filterValue flt = JsNull then BinaryInfinityNegative
                                  else getValueEdgeAfter undefinedSymbol],
                   rangeEndings = [if comparator flt = LT then Value (filterValue flt)
                                   else getValueEdgeAfter (filterValue flt)]\<rparr>)"
  proof
    assume h: "\<not> isObject (filterValue flt) \<and> (comparator flt = LT \<or> comparator flt = LTE)"
    then have c: "comparator flt = LT \<or> comparator flt = LTE"
      and v: "\<not> isObject (filterValue flt)" by simp_all
    note cs = extractLess_cases [OF c flt v, of others]
    note ms = extractLess_more [OF c flt v, of others]
    show "(\<forall>g. find (hasComparator GTE) others = Some g \<and> isObject (operandOf g) \<longrightarrow>
            extractRanges queries indexField =
              Inl (if isArray (operandOf g) then RangeFilterArrayValue GTE
                   else RangeFilterObjectValue GTE))
       \<and> (\<forall>g. find (hasComparator GTE) others = Some g \<and> \<not> isObject (operandOf g)
              \<and> operandOf g \<noteq> JsNull \<and> operandOf g \<noteq> JsUndefined \<longrightarrow>
            extractRanges queries indexField =
              Inr \<lparr>used = [anchor, g], rangeStarts = [Value (operandOf g)],
                   rangeEndings = [if comparator flt = LT then Value (filterValue flt)
                                   else getValueEdgeAfter (filterValue flt)]\<rparr>)
       \<and> (\<forall>g. find (hasComparator GTE) others = Some g
              \<and> (operandOf g = JsNull \<or> operandOf g = JsUndefined)
              \<and> (\<forall>h. find (hasComparator GT) others = Some h \<longrightarrow> \<not> isObject (operandOf h)) \<longrightarrow>
            (\<exists>r. extractRanges queries indexField = Inr r
                 \<and> length (rangeStarts r) = 1
                 \<and> rangeEndings r = [if comparator flt = LT then Value (filterValue flt)
                                      else getValueEdgeAfter (filterValue flt)]
                 \<and> anchor \<in> set (used r) \<and> g \<in> set (used r)))
       \<and> (\<forall>g h. find (hasComparator GTE) others = Some g
              \<and> (operandOf g = JsNull \<or> operandOf g = JsUndefined)
              \<and> find (hasComparator GT) others = Some h \<and> isObject (operandOf h) \<longrightarrow>
            extractRanges queries indexField =
              Inl (if isArray (operandOf h) then RangeFilterArrayValue GT
                   else RangeFilterObjectValue GT))
       \<and> (\<forall>g. find (hasComparator GTE) others = None \<and> find (hasComparator GT) others = Some g
              \<and> isObject (operandOf g) \<longrightarrow>
            extractRanges queries indexField =
              Inl (if isArray (operandOf g) then RangeFilterArrayValue GT
                   else RangeFilterObjectValue GT))
       \<and> (\<forall>g. find (hasComparator GTE) others = None \<and> find (hasComparator GT) others = Some g
              \<and> \<not> isObject (operandOf g) \<longrightarrow>
            extractRanges queries indexField =
              Inr \<lparr>used = [anchor, g], rangeStarts = [getValueEdgeAfter (operandOf g)],
                   rangeEndings = [if comparator flt = LT then Value (filterValue flt)
                                   else getValueEdgeAfter (filterValue flt)]\<rparr>)
       \<and> (find (hasComparator GTE) others = None \<and> find (hasComparator GT) others = None \<longrightarrow>
            extractRanges queries indexField =
              Inr \<lparr>used = [anchor],
                   rangeStarts = [if filterValue flt = JsNull then BinaryInfinityNegative
                                  else getValueEdgeAfter undefinedSymbol],
                   rangeEndings = [if comparator flt = LT then Value (filterValue flt)
                                   else getValueEdgeAfter (filterValue flt)]\<rparr>)"
      unfolding extractRanges_less [OF fq flt c]
      using cs ms by (intro conjI) blast+
  qed
  have G: "\<not> isObject (filterValue flt) \<and> (comparator flt = GT \<or> comparator flt = GTE) \<longrightarrow>
       (\<forall>g. find (hasComparator LTE) others = Some g \<and> isObject (operandOf g) \<longrightarrow>
            extractRanges queries indexField =
              Inl (if isArray (operandOf g) then RangeFilterArrayValue LTE
                   else RangeFilterObjectValue LTE))
       \<and> (\<forall>g. find (hasComparator LTE) others = Some g \<and> \<not> isObject (operandOf g) \<longrightarrow>
            extractRanges queries indexField =
              Inr \<lparr>used = [anchor, g],
                   rangeStarts = [if comparator flt = GTE then Value (filterValue flt)
                                  else getValueEdgeAfter (filterValue flt)],
                   rangeEndings = [getValueEdgeAfter (operandOf g)]\<rparr>)
       \<and> (\<forall>g. find (hasComparator LTE) others = None \<and> find (hasComparator LT) others = Some g
              \<and> isObject (operandOf g) \<longrightarrow>
            extractRanges queries indexField =
              Inl (if isArray (operandOf g) then RangeFilterArrayValue LT
                   else RangeFilterObjectValue LT))
       \<and> (\<forall>g. find (hasComparator LTE) others = None \<and> find (hasComparator LT) others = Some g
              \<and> \<not> isObject (operandOf g) \<and> operandOf g \<noteq> JsNull \<and> operandOf g \<noteq> JsUndefined \<longrightarrow>
            extractRanges queries indexField =
              Inr \<lparr>used = [anchor, g],
                   rangeStarts = [if comparator flt = GTE then Value (filterValue flt)
                                  else getValueEdgeAfter (filterValue flt)],
                   rangeEndings = [Value (operandOf g)]\<rparr>)
       \<and> (\<forall>g. find (hasComparator LTE) others = None \<and> find (hasComparator LT) others = Some g
              \<and> (operandOf g = JsNull \<or> operandOf g = JsUndefined) \<longrightarrow>
            (\<exists>r. extractRanges queries indexField = Inr r
                 \<and> rangeStarts r = [if comparator flt = GTE then Value (filterValue flt)
                                     else getValueEdgeAfter (filterValue flt)]
                 \<and> length (rangeEndings r) = 1
                 \<and> anchor \<in> set (used r) \<and> g \<in> set (used r)))
       \<and> (find (hasComparator LTE) others = None \<and> find (hasComparator LT) others = None \<longrightarrow>
            extractRanges queries indexField =
              Inr \<lparr>used = [anchor],
                   rangeStarts = [if comparator flt = GTE then Value (filterValue flt)
                                  else getValueEdgeAfter (filterValue flt)],
                   rangeEndings = [if filterValue flt = JsNull then getValueEdgeAfter JsNull
                                   else BinaryInfinityPositive]\<rparr>)"
  proof
    assume h: "\<not> isObject (filterValue flt) \<and> (comparator flt = GT \<or> comparator flt = GTE)"
    then have c: "comparator flt = GT \<or> comparator flt = GTE"
      and v: "\<not> isObject (filterValue flt)" by simp_all
    note cs = extractGreater_cases [OF c flt v, of others]
    note ms = extractGreater_more [OF c flt v, of others]
    show "(\<forall>g. find (hasComparator LTE) others = Some g \<and> isObject (operandOf g) \<longrightarrow>
            extractRanges queries indexField =
              Inl (if isArray (operandOf g) then RangeFilterArrayValue LTE
                   else RangeFilterObjectValue LTE))
       \<and> (\<forall>g. find (hasComparator LTE) others = Some g \<and> \<not> isObject (operandOf g) \<longrightarrow>
            extractRanges queries indexField =
              Inr \<lparr>used = [anchor, g],
                   rangeStarts = [if comparator flt = GTE then Value (filterValue flt)
                                  else getValueEdgeAfter (filterValue flt)],
                   rangeEndings = [getValueEdgeAfter (operandOf g)]\<rparr>)
       \<and> (\<forall>g. find (hasComparator LTE) others = None \<and> find (hasComparator LT) others = Some g
              \<and> isObject (operandOf g) \<longrightarrow>
            extractRanges queries indexField =
              Inl (if isArray (operandOf g) then RangeFilterArrayValue LT
                   else RangeFilterObjectValue LT))
       \<and> (\<forall>g. find (hasComparator LTE) others = None \<and> find (hasComparator LT) others = Some g
              \<and> \<not> isObject (operandOf g) \<and> operandOf g \<noteq> JsNull \<and> operandOf g \<noteq> JsUndefined \<longrightarrow>
            extractRanges queries indexField =
              Inr \<lparr>used = [anchor, g],
                   rangeStarts = [if comparator flt = GTE then Value (filterValue flt)
                                  else getValueEdgeAfter (filterValue flt)],
                   rangeEndings = [Value (operandOf g)]\<rparr>)
       \<and> (\<forall>g. find (hasComparator LTE) others = None \<and> find (hasComparator LT) others = Some g
              \<and> (operandOf g = JsNull \<or> operandOf g = JsUndefined) \<longrightarrow>
            (\<exists>r. extractRanges queries indexField = Inr r
                 \<and> rangeStarts r = [if comparator flt = GTE then Value (filterValue flt)
                                     else getValueEdgeAfter (filterValue flt)]
                 \<and> length (rangeEndings r) = 1
                 \<and> anchor \<in> set (used r) \<and> g \<in> set (used r)))
       \<and> (find (hasComparator LTE) others = None \<and> find (hasComparator LT) others = None \<longrightarrow>
            extractRanges queries indexField =
              Inr \<lparr>used = [anchor],
                   rangeStarts = [if comparator flt = GTE then Value (filterValue flt)
                                  else getValueEdgeAfter (filterValue flt)],
                   rangeEndings = [if filterValue flt = JsNull then getValueEdgeAfter JsNull
                                   else BinaryInfinityPositive]\<rparr>)"
      unfolding extractRanges_greater [OF fq flt c]
      using cs ms by (intro conjI) blast+
  qed
  from E L G show ?thesis by (intro conjI)
qed

text \<open>
  The theorem at \<open>{f: {gte: 1, lt: 10}}\<close>: one range \<open>[1, 10)\<close>, both clauses used; at
  \<open>{f: {lte: 10, gt: 1}}\<close>; at \<open>{f: {lt: [1]}}\<close> and \<open>{f: {gte: 1, lt: /x/}}\<close>, which fail;
  and at \<open>{f: {gte: 1, lt: null}}\<close>: one pair, both clauses used.
\<close>

theorem extractRanges_range_pairing_witness:
  "extractRanges [clause 0 ''f'' GTE (JsNumber 1), clause 1 ''f'' LT (JsNumber 10)] ''f''
     = Inr \<lparr>used = [clause 0 ''f'' GTE (JsNumber 1), clause 1 ''f'' LT (JsNumber 10)],
            rangeStarts = [Value (JsNumber 1)], rangeEndings = [Value (JsNumber 10)]\<rparr>
   \<and> extractRanges [clause 0 ''f'' LTE (JsNumber 10), clause 1 ''f'' GT (JsNumber 1)] ''f''
     = Inr \<lparr>used = [clause 0 ''f'' LTE (JsNumber 10), clause 1 ''f'' GT (JsNumber 1)],
            rangeStarts = [RangeEdgeAfter (JsNumber 1)],
            rangeEndings = [RangeEdgeAfter (JsNumber 10)]\<rparr>
   \<and> extractRanges [clause 0 ''f'' LT (JsArray [JsNumber 1])] ''f''
     = Inl (ValueMustNotBeArray LT)
   \<and> extractRanges [clause 0 ''f'' GTE (JsNumber 1), clause 1 ''f'' LT (JsObject ''/x/'')] ''f''
     = Inl (RangeFilterObjectValue LT)
   \<and> (\<exists>r. extractRanges [clause 0 ''f'' GTE (JsNumber 1), clause 1 ''f'' LT JsNull] ''f'' = Inr r
          \<and> rangeStarts r = [Value (JsNumber 1)] \<and> length (rangeEndings r) = 1
          \<and> clause 0 ''f'' GTE (JsNumber 1) \<in> set (used r)
          \<and> clause 1 ''f'' LT JsNull \<in> set (used r))"
proof -
  let ?a = "clause 0 ''f'' GTE (JsNumber 1)"
  let ?b = "clause 1 ''f'' LT (JsNumber 10)"
  let ?c = "clause 0 ''f'' LTE (JsNumber 10)"
  let ?d = "clause 1 ''f'' GT (JsNumber 1)"
  let ?e = "clause 0 ''f'' LT (JsArray [JsNumber 1])"
  let ?o = "clause 1 ''f'' LT (JsObject ''/x/'')"
  let ?n = "clause 1 ''f'' LT JsNull"
  have f1: "filter (\<lambda>q. dbQueryToDottedField q = ''f'') [?a, ?b] = ?a # [?b]"
    by (simp add: dbQueryToDottedField_def)
  have f2: "filter (\<lambda>q. dbQueryToDottedField q = ''f'') [?c, ?d] = ?c # [?d]"
    by (simp add: dbQueryToDottedField_def)
  have f3: "filter (\<lambda>q. dbQueryToDottedField q = ''f'') [?e] = ?e # []"
    by (simp add: dbQueryToDottedField_def)
  have f4: "filter (\<lambda>q. dbQueryToDottedField q = ''f'') [?a, ?o] = ?a # [?o]"
    by (simp add: dbQueryToDottedField_def)
  have f5: "filter (\<lambda>q. dbQueryToDottedField q = ''f'') [?a, ?n] = ?a # [?n]"
    by (simp add: dbQueryToDottedField_def)
  have w1: "extractRanges [?a, ?b] ''f''
     = Inr \<lparr>used = [?a, ?b], rangeStarts = [Value (JsNumber 1)],
            rangeEndings = [Value (JsNumber 10)]\<rparr>"
    using extractRanges_range_pairing [OF f1 refl]
    by (simp add: getFilterStatement_def)
  have w2: "extractRanges [?c, ?d] ''f''
     = Inr \<lparr>used = [?c, ?d], rangeStarts = [RangeEdgeAfter (JsNumber 1)],
            rangeEndings = [RangeEdgeAfter (JsNumber 10)]\<rparr>"
    using extractRanges_range_pairing [OF f2 refl]
    by (simp add: getFilterStatement_def getValueEdgeAfter_def)
  have w3: "extractRanges [?e] ''f'' = Inl (ValueMustNotBeArray LT)"
    using extractRanges_range_pairing [OF f3 refl]
    by (simp add: getFilterStatement_def)
  have w4: "extractRanges [?a, ?o] ''f'' = Inl (RangeFilterObjectValue LT)"
    using extractRanges_range_pairing [OF f4 refl]
    by (simp add: getFilterStatement_def)
  have w5: "\<exists>r. extractRanges [?a, ?n] ''f'' = Inr r
          \<and> rangeStarts r = [Value (JsNumber 1)] \<and> length (rangeEndings r) = 1
          \<and> ?a \<in> set (used r) \<and> ?n \<in> set (used r)"
    using extractRanges_range_pairing [OF f5 refl]
    by (simp add: getFilterStatement_def)
  from w1 w2 w3 w4 w5 show ?thesis by (intro conjI)
qed

text \<open>
  C2 as stated fails: an anchor with an array operand yields no pair but an error; a
  complementary \<open>LT\<close> clause whose operand is \<open>null\<close> is marked used while the end is the
  upper rail, not that operand; a complementary clause with an object operand is an error.
\<close>

theorem extractRanges_range_pairing_counterexample:
  "extractRanges [clause 0 ''age'' LT (JsArray [JsNumber 1])] ''age''
     = Inl (ValueMustNotBeArray LT)
   \<and> extractRanges [clause 0 ''age'' GTE (JsNumber 1), clause 1 ''age'' LT JsNull] ''age''
     = Inr \<lparr>used = [clause 0 ''age'' GTE (JsNumber 1), clause 1 ''age'' LT JsNull],
            rangeStarts = [Value (JsNumber 1)], rangeEndings = [BinaryInfinityPositive]\<rparr>
   \<and> extractRanges [clause 0 ''age'' GTE (JsNumber 1), clause 1 ''age'' LT (JsObject ''/x/'')] ''age''
     = Inl (RangeFilterObjectValue LT)"
  by (simp add: extractRanges_def extractLess_def extractGreater_def toIndexFieldValue_def
      dbQueryToDottedField_def getFilterStatement_def setAdd_def getValueEdgeAfter_def)

lemma extractEqIn_lengths:
  "extractEqIn u flt = Inr r \<Longrightarrow> length (rangeStarts r) = length (rangeEndings r)"
proof -
  assume a: "extractEqIn u flt = Inr r"
  show ?thesis
  proof (cases "pushValues (operandValues (filterValue flt)) flt (False, [], [])")
    case (Inl e)
    with a show ?thesis by (simp add: extractEqIn_def)
  next
    case (Inr t)
    obtain h s e where t: "t = (h, s, e)" by (cases t) auto
    with Inr have "length s = length e"
      using pushValues_lengths [of _ flt False "[]" "[]" h s e] by simp
    with a Inr t show ?thesis
      by (auto simp: extractEqIn_def split: if_splits)
  qed
qed

lemma extractLess_lengths:
  "extractLess fq u flt = Inr r \<Longrightarrow> length (rangeStarts r) = length (rangeEndings r)"
  by (auto simp: extractLess_def Let_def split: if_splits sum.splits prod.splits)

lemma extractGreater_lengths:
  "extractGreater fq u flt = Inr r \<Longrightarrow> length (rangeStarts r) = length (rangeEndings r)"
  by (auto simp: extractGreater_def Let_def split: if_splits sum.splits prod.splits)

lemma extractRanges_lengths:
  assumes "extractRanges qs f = Inr r"
  shows "length (rangeStarts r) = length (rangeEndings r)"
proof (cases "filter (\<lambda>q. dbQueryToDottedField q = f) qs")
  case Nil
  with assms show ?thesis by (auto simp: extractRanges_def)
next
  case (Cons a others)
  with assms show ?thesis
    by (cases "comparator (getFilterStatement a)")
       (auto simp: extractRanges_def Let_def split: if_splits
             dest: extractEqIn_lengths extractLess_lengths extractGreater_lengths)
qed

lemma setAdd_set: "set (setAdd s q) = insert q (set s)"
  by (auto simp: setAdd_def)

lemma setAdd_distinct: "distinct s \<Longrightarrow> distinct (setAdd s q)"
  by (auto simp: setAdd_def)

lemma foldl_setAdd_set: "set (foldl setAdd s qs) = set s \<union> set qs"
  by (induction qs arbitrary: s) (auto simp: setAdd_set)

lemma foldl_setAdd_distinct: "distinct s \<Longrightarrow> distinct (foldl setAdd s qs)"
  by (induction qs arbitrary: s) (auto simp: setAdd_distinct)

lemma findRangeEdge_used:
  "findRangeEdge qs u c e = Inr (x, u') \<Longrightarrow>
   set u' \<subseteq> set u \<union> set qs \<and> (distinct u \<longrightarrow> distinct u')"
proof (induction qs)
  case Nil
  then show ?case by simp
next
  case (Cons q qs)
  then show ?case
    by (auto simp: Let_def setAdd_def split: if_splits)
qed

lemma extractLess_used:
  assumes "extractLess fq u flt = Inr r"
  shows "set (used r) \<subseteq> set u \<union> set fq \<and> (distinct u \<longrightarrow> distinct (used r))"
proof -
  from assms obtain x1 u1 where r1: "findRangeEdge fq u GTE NONE = Inr (x1, u1)"
    by (auto simp: extractLess_def Let_def split: if_splits sum.splits)
  note a1 = findRangeEdge_used [OF r1]
  show ?thesis
  proof (cases "nullish x1")
    case True
    with assms r1 obtain x2 u2 where r2: "findRangeEdge fq u1 GT AFTER = Inr (x2, u2)"
      and u: "used r = u2"
      by (auto simp: extractLess_def Let_def split: if_splits sum.splits)
    from findRangeEdge_used [OF r2] a1 u show ?thesis by auto
  next
    case False
    with assms r1 have "used r = u1"
      by (auto simp: extractLess_def Let_def split: if_splits sum.splits)
    with a1 show ?thesis by auto
  qed
qed

lemma extractGreater_used:
  assumes "extractGreater fq u flt = Inr r"
  shows "set (used r) \<subseteq> set u \<union> set fq \<and> (distinct u \<longrightarrow> distinct (used r))"
proof -
  from assms obtain x1 u1 where r1: "findRangeEdge fq u LTE AFTER = Inr (x1, u1)"
    by (auto simp: extractGreater_def Let_def split: if_splits sum.splits)
  note a1 = findRangeEdge_used [OF r1]
  show ?thesis
  proof (cases "nullish x1")
    case True
    with assms r1 obtain x2 u2 where r2: "findRangeEdge fq u1 LT NONE = Inr (x2, u2)"
      and u: "used r = u2"
      by (auto simp: extractGreater_def Let_def split: if_splits sum.splits)
    from findRangeEdge_used [OF r2] a1 u show ?thesis by auto
  next
    case False
    with assms r1 have "used r = u1"
      by (auto simp: extractGreater_def Let_def split: if_splits sum.splits)
    with a1 show ?thesis by auto
  qed
qed

lemma extractEqIn_used: "extractEqIn u flt = Inr r \<Longrightarrow> used r = u"
  by (auto simp: extractEqIn_def Let_def split: if_splits sum.splits prod.splits)

lemma extractRanges_used:
  assumes "extractRanges qs f = Inr r"
  shows "set (used r) \<subseteq> {q \<in> set qs. dbQueryToDottedField q = f} \<and> distinct (used r)"
proof (cases "filter (\<lambda>q. dbQueryToDottedField q = f) qs")
  case Nil
  with assms show ?thesis by (auto simp: extractRanges_def)
next
  case (Cons a others)
  then have sub: "set (a # others) = {q \<in> set qs. dbQueryToDottedField q = f}"
    by (metis set_filter)
  have d: "distinct [a]" by simp
  from assms Cons have
    "(used r = [a]) \<or> (extractLess (a # others) [a] (getFilterStatement a) = Inr r)
      \<or> (extractGreater (a # others) [a] (getFilterStatement a) = Inr r)"
    by (cases "comparator (getFilterStatement a)")
       (auto simp: extractRanges_def Let_def setAdd_def split: if_splits dest: extractEqIn_used)
  then show ?thesis
  proof (elim disjE)
    assume "used r = [a]"
    with sub show ?thesis by auto
  next
    assume "extractLess (a # others) [a] (getFilterStatement a) = Inr r"
    from extractLess_used [OF this] sub show ?thesis by auto
  next
    assume "extractGreater (a # others) [a] (getFilterStatement a) = Inr r"
    from extractGreater_used [OF this] sub show ?thesis by auto
  qed
qed

section \<open>Properties of the range composer\<close>

lemma collectRanges_stop:
  assumes "extractRanges qs f = Inr r" and "rangeStarts r = []"
  shows "collectRanges qs (pre @ f # post) acc = collectRanges qs pre acc"
proof (induction pre arbitrary: acc)
  case Nil
  obtain u s e where "acc = (u, s, e)" by (cases acc) auto
  with assms show ?case by simp
next
  case (Cons g pre)
  obtain u s e where acc: "acc = (u, s, e)" by (cases acc) auto
  show ?case
  proof (cases "extractRanges qs g")
    case (Inl err)
    with acc show ?thesis by simp
  next
    case (Inr rg)
    with acc Cons.IH show ?thesis by simp
  qed
qed

lemma collectRanges_invariant:
  assumes "collectRanges qs fs (u, s, e) = Inr (u', s', e')"
  shows "set u' \<subseteq> set u \<union> {q \<in> set qs. dbQueryToDottedField q \<in> set fs}
       \<and> (distinct u \<longrightarrow> distinct u')
       \<and> (list_all2 (\<lambda>a b. length a = length b) s e \<longrightarrow>
            list_all2 (\<lambda>a b. length a = length b) s' e')
       \<and> length s \<le> length s' \<and> length s' \<le> length s + length fs
       \<and> (s' = s \<longrightarrow> u' = u)"
  using assms
proof (induction fs arbitrary: u s e)
  case Nil
  then show ?case by simp
next
  case (Cons f fs)
  show ?case
  proof (cases "extractRanges qs f")
    case (Inl err)
    with Cons.prems show ?thesis by simp
  next
    case (Inr r)
    show ?thesis
    proof (cases "rangeStarts r = []")
      case True
      with Inr Cons.prems show ?thesis by simp
    next
      case False
      with Inr Cons.prems have rec: "collectRanges qs fs
          (foldl setAdd u (used r), s @ [rangeStarts r], e @ [rangeEndings r]) = Inr (u', s', e')"
        by simp
      note ih = Cons.IH [OF rec]
      note ur = extractRanges_used [OF Inr]
      note lr = extractRanges_lengths [OF Inr]
      have "set u' \<subseteq> set u \<union> {q \<in> set qs. dbQueryToDottedField q \<in> set (f # fs)}"
        using ih ur by (auto simp: foldl_setAdd_set)
      moreover have "distinct u \<longrightarrow> distinct u'"
        using ih by (simp add: foldl_setAdd_distinct)
      moreover have "list_all2 (\<lambda>a b. length a = length b) s e \<longrightarrow>
            list_all2 (\<lambda>a b. length a = length b) s' e'"
        using ih lr by (simp add: list_all2_appendI)
      moreover have "length s \<le> length s' \<and> length s' \<le> length s + length (f # fs)"
        using ih by simp
      moreover have "s' \<noteq> s" using ih by auto
      ultimately show ?thesis by simp
    qed
  qed
qed

lemma length_cartesianProduct:
  "length (cartesianProduct xss) = prod_list (map length xss)"
proof (induction xss)
  case Nil
  then show ?case by simp
next
  case (Cons xs xss)
  have "length (concat (map (\<lambda>x. map (\<lambda>tuple. x # tuple) (cartesianProduct xss)) xs))
      = length xs * length (cartesianProduct xss)"
    by (induction xs) simp_all
  with Cons show ?case by simp
qed

lemma cartesianProduct_tuple_length:
  "t \<in> set (cartesianProduct xss) \<Longrightarrow> length t = length xss"
  by (induction xss arbitrary: t) auto

lemma cartesianProduct_same_count:
  "list_all2 (\<lambda>a b. length a = length b) ss es \<Longrightarrow>
   length (cartesianProduct ss) = length (cartesianProduct es)"
proof -
  assume "list_all2 (\<lambda>a b. length a = length b) ss es"
  then have "map length ss = map length es"
    by (induction rule: list_all2_induct) simp_all
  then show ?thesis by (simp add: length_cartesianProduct)
qed

lemma length_composeRanges: "length (composeRanges sp ep) = length sp"
  by (simp add: composeRanges_def)

lemma nth_composeRanges:
  "i < length sp \<Longrightarrow> length ep = length sp \<Longrightarrow>
   composeRanges sp ep ! i = \<lparr>rangeStart = sp ! i, rangeEnd = Some (ep ! i)\<rparr>"
  by (simp add: composeRanges_def nthOpt_def)

lemma collectRanges_empty:
  assumes "collectRanges qs fs ([], [], []) = Inr (u, [], es)"
  shows "u = [] \<and> es = []"
proof -
  from collectRanges_invariant [OF assms] have "u = []" by simp
  moreover from collectRanges_invariant [OF assms] have "list_all2 (\<lambda>a b. length a = length b) [] es"
    by simp
  ultimately show ?thesis by simp
qed

text \<open>
  C3. When \<open>extractRanges\<close> yields no start for an index field \<open>f\<close>, \<open>getIndexRanges\<close> on
  the index fields \<open>pre @ f # post\<close> returns what it returns on \<open>pre\<close> alone: the fields
  from \<open>f\<close> on are not looked at, so they raise no error either. Every clause of the
  returned \<open>usedQueries\<close> addresses a field of \<open>pre\<close>, and every range boundary has at most
  one component for each field of \<open>pre\<close>.
\<close>

theorem getIndexRanges_prefix_only:
  assumes stop: "extractRanges (getQueriesThatCanUseIndex dbQs) f = Inr r"
    and none: "rangeStarts r = []"
  shows "getIndexRanges dbQs (pre @ f # post) = getIndexRanges dbQs pre
       \<and> (\<forall>plan. getIndexRanges dbQs (pre @ f # post) = Inr plan \<longrightarrow>
            (\<forall>q \<in> set (usedQueries plan). dbQueryToDottedField q \<in> set pre)
          \<and> (\<forall>rg \<in> set (ranges plan). length (rangeStart rg) \<le> length pre))"
proof (intro conjI allI impI)
  show eq: "getIndexRanges dbQs (pre @ f # post) = getIndexRanges dbQs pre"
    by (simp add: getIndexRanges_def collectRanges_stop [OF stop none])
  fix plan
  assume "getIndexRanges dbQs (pre @ f # post) = Inr plan"
  with eq have p: "getIndexRanges dbQs pre = Inr plan" by simp
  then obtain u ss es where
    c: "collectRanges (getQueriesThatCanUseIndex dbQs) pre ([], [], []) = Inr (u, ss, es)"
    by (auto simp: getIndexRanges_def split: sum.splits)
  note inv = collectRanges_invariant [OF c]
  from p c have up: "usedQueries plan = u"
    by (auto simp: getIndexRanges_def split: if_splits)
  with inv show "\<forall>q \<in> set (usedQueries plan). dbQueryToDottedField q \<in> set pre" by auto
  show "\<forall>rg \<in> set (ranges plan). length (rangeStart rg) \<le> length pre"
  proof
    fix rg assume rg: "rg \<in> set (ranges plan)"
    show "length (rangeStart rg) \<le> length pre"
    proof (cases "ss = []")
      case True
      with p c rg show ?thesis by (auto simp: getIndexRanges_def)
    next
      case False
      with p c have "ranges plan = composeRanges (cartesianProduct ss) (cartesianProduct es)"
        by (auto simp: getIndexRanges_def)
      with rg obtain i where i: "i < length (cartesianProduct ss)"
        and "rg = \<lparr>rangeStart = cartesianProduct ss ! i, rangeEnd = nthOpt (cartesianProduct es) i\<rparr>"
        by (auto simp: composeRanges_def)
      then have "length (rangeStart rg) = length ss"
        using cartesianProduct_tuple_length [of "cartesianProduct ss ! i" ss] by simp
      with inv show ?thesis by simp
    qed
  qed
qed

lemma collectRanges_fields:
  assumes "collectRanges qs fs (u, s, e) = Inr (u', s', e')"
  shows "\<exists>rs. length rs \<le> length fs
           \<and> (\<forall>k < length rs. extractRanges qs (fs ! k) = Inr (rs ! k) \<and> rangeStarts (rs ! k) \<noteq> [])
           \<and> (length rs < length fs \<longrightarrow>
                (\<exists>r. extractRanges qs (fs ! length rs) = Inr r \<and> rangeStarts r = []))
           \<and> s' = s @ map rangeStarts rs \<and> e' = e @ map rangeEndings rs"
  using assms
proof (induction fs arbitrary: u s e)
  case Nil
  then show ?case by simp
next
  case (Cons f fs)
  show ?case
  proof (cases "extractRanges qs f")
    case (Inl err)
    with Cons.prems show ?thesis by simp
  next
    case (Inr r)
    show ?thesis
    proof (cases "rangeStarts r = []")
      case True
      with Inr Cons.prems have "s' = s" "e' = e" by simp_all
      with Inr True show ?thesis by (intro exI [of _ "[]"]) simp
    next
      case False
      with Inr Cons.prems have rec: "collectRanges qs fs
          (foldl setAdd u (used r), s @ [rangeStarts r], e @ [rangeEndings r]) = Inr (u', s', e')"
        by simp
      from Cons.IH [OF rec] obtain rs where
        len: "length rs \<le> length fs"
        and each: "\<forall>k < length rs. extractRanges qs (fs ! k) = Inr (rs ! k) \<and> rangeStarts (rs ! k) \<noteq> []"
        and nxt: "length rs < length fs \<longrightarrow>
                (\<exists>r. extractRanges qs (fs ! length rs) = Inr r \<and> rangeStarts r = [])"
        and s': "s' = (s @ [rangeStarts r]) @ map rangeStarts rs"
        and e': "e' = (e @ [rangeEndings r]) @ map rangeEndings rs"
        by blast
      have each': "\<forall>k < length (r # rs). extractRanges qs ((f # fs) ! k) = Inr ((r # rs) ! k)
            \<and> rangeStarts ((r # rs) ! k) \<noteq> []"
      proof (intro allI impI)
        fix k assume "k < length (r # rs)"
        then show "extractRanges qs ((f # fs) ! k) = Inr ((r # rs) ! k)
            \<and> rangeStarts ((r # rs) ! k) \<noteq> []"
          using each Inr False by (cases k) simp_all
      qed
      show ?thesis
        using len each' nxt s' e' by (intro exI [of _ "r # rs"]) simp
    qed
  qed
qed

text \<open>
  C4. Let \<open>getIndexRanges\<close> return a plan. The index fields that produced constraints
  are a prefix of the declared fields, with extraction results \<open>rs\<close>, ended by the end of
  the fields or by a field with no start. When \<open>rs\<close> is not empty, the number of ranges is
  the product of the lengths of the per-field start lists, and the \<open>i\<close>-th range pairs the
  \<open>i\<close>-th tuple of the cartesian product of the start lists with the \<open>i\<close>-th tuple of the
  cartesian product of the end lists. When \<open>rs\<close> is empty, there is no range and no used
  clause.
\<close>

theorem getIndexRanges_cartesian:
  assumes "getIndexRanges dbQs fs = Inr plan"
  shows "\<exists>rs. length rs \<le> length fs
      \<and> (\<forall>k < length rs. extractRanges (getQueriesThatCanUseIndex dbQs) (fs ! k) = Inr (rs ! k)
                           \<and> rangeStarts (rs ! k) \<noteq> [])
      \<and> (length rs < length fs \<longrightarrow>
           (\<exists>r. extractRanges (getQueriesThatCanUseIndex dbQs) (fs ! length rs) = Inr r
                \<and> rangeStarts r = []))
      \<and> (rs \<noteq> [] \<longrightarrow>
           length (ranges plan) = prod_list (map (\<lambda>r. length (rangeStarts r)) rs)
         \<and> (\<forall>i < length (ranges plan).
              ranges plan ! i =
                \<lparr>rangeStart = cartesianProduct (map rangeStarts rs) ! i,
                 rangeEnd = Some (cartesianProduct (map rangeEndings rs) ! i)\<rparr>))
      \<and> (rs = [] \<longrightarrow> ranges plan = [] \<and> usedQueries plan = [])"
proof -
  from assms obtain u ss es where
    c: "collectRanges (getQueriesThatCanUseIndex dbQs) fs ([], [], []) = Inr (u, ss, es)"
    by (auto simp: getIndexRanges_def split: sum.splits)
  from collectRanges_fields [OF c] obtain rs where
    len: "length rs \<le> length fs"
    and each: "\<forall>k < length rs. extractRanges (getQueriesThatCanUseIndex dbQs) (fs ! k) = Inr (rs ! k)
                 \<and> rangeStarts (rs ! k) \<noteq> []"
    and nxt: "length rs < length fs \<longrightarrow>
           (\<exists>r. extractRanges (getQueriesThatCanUseIndex dbQs) (fs ! length rs) = Inr r
                \<and> rangeStarts r = [])"
    and ss: "ss = map rangeStarts rs" and es: "es = map rangeEndings rs"
    by auto
  note inv = collectRanges_invariant [OF c]
  have cnt: "length (cartesianProduct es) = length (cartesianProduct ss)"
    using inv cartesianProduct_same_count [of ss es] by simp
  have nonempty: "rs \<noteq> [] \<longrightarrow>
           length (ranges plan) = prod_list (map (\<lambda>r. length (rangeStarts r)) rs)
         \<and> (\<forall>i < length (ranges plan).
              ranges plan ! i =
                \<lparr>rangeStart = cartesianProduct (map rangeStarts rs) ! i,
                 rangeEnd = Some (cartesianProduct (map rangeEndings rs) ! i)\<rparr>)"
  proof
    assume "rs \<noteq> []"
    with ss have "ss \<noteq> []" by simp
    with assms c have rp: "ranges plan = composeRanges (cartesianProduct ss) (cartesianProduct es)"
      by (auto simp: getIndexRanges_def)
    have "length (ranges plan) = prod_list (map (\<lambda>r. length (rangeStarts r)) rs)"
      using rp ss by (simp add: length_composeRanges length_cartesianProduct comp_def)
    moreover have "\<forall>i < length (ranges plan).
              ranges plan ! i =
                \<lparr>rangeStart = cartesianProduct (map rangeStarts rs) ! i,
                 rangeEnd = Some (cartesianProduct (map rangeEndings rs) ! i)\<rparr>"
      using rp cnt ss es by (simp add: length_composeRanges nth_composeRanges)
    ultimately show "length (ranges plan) = prod_list (map (\<lambda>r. length (rangeStarts r)) rs)
         \<and> (\<forall>i < length (ranges plan).
              ranges plan ! i =
                \<lparr>rangeStart = cartesianProduct (map rangeStarts rs) ! i,
                 rangeEnd = Some (cartesianProduct (map rangeEndings rs) ! i)\<rparr>)"
      by simp
  qed
  have empty: "rs = [] \<longrightarrow> ranges plan = [] \<and> usedQueries plan = []"
  proof
    assume "rs = []"
    with ss have "ss = []" by simp
    with c collectRanges_empty [of _ fs u es] have "u = []" by simp
    with assms c \<open>ss = []\<close> show "ranges plan = [] \<and> usedQueries plan = []"
      by (auto simp: getIndexRanges_def)
  qed
  show ?thesis
    using len each nxt nonempty empty by (intro exI [of _ rs]) simp
qed

text \<open>
  C10. \<open>extractRanges\<close> returns as many starts as ends. So the loop of \<open>getIndexRanges\<close>
  collects per-field start and end lists of pairwise equal lengths, the two cartesian
  products have the same number of tuples, and every composed range has an end (the
  indexed read is in range) with as many components as its start.
\<close>

theorem getIndexRanges_lockstep:
  "(\<forall>r. extractRanges qs f = Inr r \<longrightarrow> length (rangeStarts r) = length (rangeEndings r))
   \<and> (\<forall>u ss es. collectRanges (getQueriesThatCanUseIndex dbQs) fs ([], [], []) = Inr (u, ss, es) \<longrightarrow>
         list_all2 (\<lambda>s e. length s = length e) ss es
       \<and> length (cartesianProduct ss) = length (cartesianProduct es))
   \<and> (\<forall>plan. getIndexRanges dbQs fs = Inr plan \<longrightarrow>
         (\<forall>rg \<in> set (ranges plan). \<exists>e. rangeEnd rg = Some e \<and> length e = length (rangeStart rg)))"
proof (intro conjI allI impI)
  fix r assume "extractRanges qs f = Inr r"
  then show "length (rangeStarts r) = length (rangeEndings r)"
    by (rule extractRanges_lengths)
next
  fix u ss es
  assume c: "collectRanges (getQueriesThatCanUseIndex dbQs) fs ([], [], []) = Inr (u, ss, es)"
  from collectRanges_invariant [OF c]
  show l: "list_all2 (\<lambda>s e. length s = length e) ss es" by simp
  then show "length (cartesianProduct ss) = length (cartesianProduct es)"
    by (rule cartesianProduct_same_count)
next
  fix plan assume p: "getIndexRanges dbQs fs = Inr plan"
  then obtain u ss es where
    c: "collectRanges (getQueriesThatCanUseIndex dbQs) fs ([], [], []) = Inr (u, ss, es)"
    by (auto simp: getIndexRanges_def split: sum.splits)
  from collectRanges_invariant [OF c]
  have l: "list_all2 (\<lambda>s e. length s = length e) ss es" by simp
  then have cnt: "length (cartesianProduct es) = length (cartesianProduct ss)"
    using cartesianProduct_same_count [of ss es] by simp
  from l have same: "length es = length ss" by (simp add: list_all2_lengthD)
  show "\<forall>rg \<in> set (ranges plan). \<exists>e. rangeEnd rg = Some e \<and> length e = length (rangeStart rg)"
  proof
    fix rg assume rg: "rg \<in> set (ranges plan)"
    show "\<exists>e. rangeEnd rg = Some e \<and> length e = length (rangeStart rg)"
    proof (cases "ss = []")
      case True
      with p c rg show ?thesis by (auto simp: getIndexRanges_def)
    next
      case False
      with p c have "ranges plan = composeRanges (cartesianProduct ss) (cartesianProduct es)"
        by (auto simp: getIndexRanges_def)
      with rg obtain i where i: "i < length (cartesianProduct ss)"
        and rgi: "rg = composeRanges (cartesianProduct ss) (cartesianProduct es) ! i"
        by (auto simp: in_set_conv_nth length_composeRanges)
      from rgi i cnt have v: "rg = \<lparr>rangeStart = cartesianProduct ss ! i,
          rangeEnd = Some (cartesianProduct es ! i)\<rparr>"
        by (simp add: nth_composeRanges)
      have "length (cartesianProduct ss ! i) = length ss"
        using i cartesianProduct_tuple_length [of "cartesianProduct ss ! i" ss] by simp
      moreover have "length (cartesianProduct es ! i) = length es"
        using i cnt cartesianProduct_tuple_length [of "cartesianProduct es ! i" es] by simp
      ultimately show ?thesis using v same by simp
    qed
  qed
qed

text \<open>The definitions that evaluate the planner on a concrete input.\<close>

lemmas eval_defs = getIndexRanges_def getQueriesThatCanUseIndex_def canUseIndex_def
  extractRanges_def extractEqIn_def extractLess_def extractGreater_def operandValues_def
  toIndexFieldValue_def dbQueryToDottedField_def getFilterStatement_def setAdd_def
  getValueEdgeAfter_def getValueEdgeBefore_def composeRanges_def nthOpt_def

text \<open>
  C3 on the index \<open>[a, b, c]\<close> with clauses on \<open>a\<close> and \<open>c\<close> only: one range, on \<open>a\<close>, and
  the clause on \<open>c\<close> unused; also when the clause on \<open>c\<close> is an \<open>in\<close> with a non-array
  operand, which \<open>extractRanges\<close> would reject.
\<close>

theorem getIndexRanges_prefix_only_witness:
  "getIndexRanges [clause 0 ''a'' EQ (JsNumber 1), clause 1 ''c'' EQ (JsNumber 2)]
       [''a'', ''b'', ''c'']
     = Inr \<lparr>usedQueries = [clause 0 ''a'' EQ (JsNumber 1)],
            ranges = [\<lparr>rangeStart = [Value (JsNumber 1)],
                       rangeEnd = Some [RangeEdgeAfter (JsNumber 1)]\<rparr>]\<rparr>
   \<and> getIndexRanges [clause 0 ''a'' EQ (JsNumber 1), clause 1 ''c'' IN (JsNumber 2)]
       [''a'', ''b'', ''c'']
     = Inr \<lparr>usedQueries = [clause 0 ''a'' EQ (JsNumber 1)],
            ranges = [\<lparr>rangeStart = [Value (JsNumber 1)],
                       rangeEnd = Some [RangeEdgeAfter (JsNumber 1)]\<rparr>]\<rparr>"
proof -
  let ?qs = "[clause 0 ''a'' EQ (JsNumber 1), clause 1 ''c'' EQ (JsNumber 2)]"
  let ?ps = "[clause 0 ''a'' EQ (JsNumber 1), clause 1 ''c'' IN (JsNumber 2)]"
  let ?none = "\<lparr>used = [], rangeStarts = [], rangeEndings = []\<rparr>"
  have s1: "extractRanges (getQueriesThatCanUseIndex ?qs) ''b'' = Inr ?none"
    by (simp add: eval_defs)
  have s2: "extractRanges (getQueriesThatCanUseIndex ?ps) ''b'' = Inr ?none"
    by (simp add: eval_defs)
  have n: "rangeStarts ?none = []" by simp
  have e1: "getIndexRanges ?qs [''a''] = Inr \<lparr>usedQueries = [clause 0 ''a'' EQ (JsNumber 1)],
            ranges = [\<lparr>rangeStart = [Value (JsNumber 1)],
                       rangeEnd = Some [RangeEdgeAfter (JsNumber 1)]\<rparr>]\<rparr>"
    by (simp add: eval_defs)
  have e2: "getIndexRanges ?ps [''a''] = Inr \<lparr>usedQueries = [clause 0 ''a'' EQ (JsNumber 1)],
            ranges = [\<lparr>rangeStart = [Value (JsNumber 1)],
                       rangeEnd = Some [RangeEdgeAfter (JsNumber 1)]\<rparr>]\<rparr>"
    by (simp add: eval_defs)
  show ?thesis
    using getIndexRanges_prefix_only [OF s1 n, of "[''a'']" "[''c'']"]
      getIndexRanges_prefix_only [OF s2 n, of "[''a'']" "[''c'']"] e1 e2
    by simp
qed

text \<open>
  C4 on the index \<open>[a, b, c]\<close> with \<open>{a: {in: [1, 2]}, b: {in: [3, 4]}}\<close>: the fields
  \<open>a\<close> and \<open>b\<close> produce two starts each, and there are four ranges.
\<close>

theorem getIndexRanges_cartesian_witness:
  "getIndexRanges [clause 0 ''a'' IN (JsArray [JsNumber 1, JsNumber 2]),
                   clause 1 ''b'' IN (JsArray [JsNumber 3, JsNumber 4])] [''a'', ''b'', ''c'']
     = Inr \<lparr>usedQueries = [clause 0 ''a'' IN (JsArray [JsNumber 1, JsNumber 2]),
                           clause 1 ''b'' IN (JsArray [JsNumber 3, JsNumber 4])],
            ranges = [\<lparr>rangeStart = [Value (JsNumber 1), Value (JsNumber 3)],
                       rangeEnd = Some [RangeEdgeAfter (JsNumber 1), RangeEdgeAfter (JsNumber 3)]\<rparr>,
                      \<lparr>rangeStart = [Value (JsNumber 1), Value (JsNumber 4)],
                       rangeEnd = Some [RangeEdgeAfter (JsNumber 1), RangeEdgeAfter (JsNumber 4)]\<rparr>,
                      \<lparr>rangeStart = [Value (JsNumber 2), Value (JsNumber 3)],
                       rangeEnd = Some [RangeEdgeAfter (JsNumber 2), RangeEdgeAfter (JsNumber 3)]\<rparr>,
                      \<lparr>rangeStart = [Value (JsNumber 2), Value (JsNumber 4)],
                       rangeEnd = Some [RangeEdgeAfter (JsNumber 2), RangeEdgeAfter (JsNumber 4)]\<rparr>]\<rparr>
   \<and> (\<exists>rs :: ExtractResult list. length rs = 2
          \<and> map rangeStarts rs = [[Value (JsNumber 1), Value (JsNumber 2)],
                                   [Value (JsNumber 3), Value (JsNumber 4)]]
          \<and> (4::nat) = prod_list (map (\<lambda>r. length (rangeStarts r)) rs))"
proof -
  let ?qs = "[clause 0 ''a'' IN (JsArray [JsNumber 1, JsNumber 2]),
              clause 1 ''b'' IN (JsArray [JsNumber 3, JsNumber 4])]"
  let ?fs = "[''a'', ''b'', ''c'']"
  let ?plan = "\<lparr>usedQueries = ?qs,
      ranges = [\<lparr>rangeStart = [Value (JsNumber 1), Value (JsNumber 3)],
                     rangeEnd = Some [RangeEdgeAfter (JsNumber 1), RangeEdgeAfter (JsNumber 3)]\<rparr>,
                   \<lparr>rangeStart = [Value (JsNumber 1), Value (JsNumber 4)],
                     rangeEnd = Some [RangeEdgeAfter (JsNumber 1), RangeEdgeAfter (JsNumber 4)]\<rparr>,
                   \<lparr>rangeStart = [Value (JsNumber 2), Value (JsNumber 3)],
                     rangeEnd = Some [RangeEdgeAfter (JsNumber 2), RangeEdgeAfter (JsNumber 3)]\<rparr>,
                   \<lparr>rangeStart = [Value (JsNumber 2), Value (JsNumber 4)],
                     rangeEnd = Some [RangeEdgeAfter (JsNumber 2), RangeEdgeAfter (JsNumber 4)]\<rparr>]\<rparr>"
  have p: "getIndexRanges ?qs ?fs = Inr ?plan"
    by (simp add: eval_defs)
  have xa: "extractRanges (getQueriesThatCanUseIndex ?qs) ''a'' =
      Inr \<lparr>used = [clause 0 ''a'' IN (JsArray [JsNumber 1, JsNumber 2])],
           rangeStarts = [Value (JsNumber 1), Value (JsNumber 2)],
           rangeEndings = [RangeEdgeAfter (JsNumber 1), RangeEdgeAfter (JsNumber 2)]\<rparr>"
    by (simp add: eval_defs)
  have xb: "extractRanges (getQueriesThatCanUseIndex ?qs) ''b'' =
      Inr \<lparr>used = [clause 1 ''b'' IN (JsArray [JsNumber 3, JsNumber 4])],
           rangeStarts = [Value (JsNumber 3), Value (JsNumber 4)],
           rangeEndings = [RangeEdgeAfter (JsNumber 3), RangeEdgeAfter (JsNumber 4)]\<rparr>"
    by (simp add: eval_defs)
  have xc: "extractRanges (getQueriesThatCanUseIndex ?qs) ''c'' =
      Inr \<lparr>used = [], rangeStarts = [], rangeEndings = []\<rparr>"
    by (simp add: eval_defs)
  from getIndexRanges_cartesian [OF p] obtain rs where
    len: "length rs \<le> length ?fs"
    and each: "\<forall>k < length rs. extractRanges (getQueriesThatCanUseIndex ?qs) (?fs ! k) = Inr (rs ! k)
          \<and> rangeStarts (rs ! k) \<noteq> []"
    and nxt: "length rs < length ?fs \<longrightarrow>
           (\<exists>r. extractRanges (getQueriesThatCanUseIndex ?qs) (?fs ! length rs) = Inr r
                \<and> rangeStarts r = [])"
    and prod: "rs \<noteq> [] \<longrightarrow> length (ranges ?plan) = prod_list (map (\<lambda>r. length (rangeStarts r)) rs)"
    by blast
  have n3: "length rs \<noteq> 3"
  proof
    assume "length rs = 3"
    with each [rule_format, of 2]
    have e2: "extractRanges (getQueriesThatCanUseIndex ?qs) ''c'' = Inr (rs ! 2)"
      and ne: "rangeStarts (rs ! 2) \<noteq> []" by simp_all
    from e2 xc have "rs ! 2 = \<lparr>used = [], rangeStarts = [], rangeEndings = []\<rparr>" by simp
    then have "rangeStarts (rs ! 2) = []" by simp
    with ne show False by simp
  qed
  have n0: "length rs \<noteq> 0"
  proof
    assume "length rs = 0"
    with nxt xa show False by auto
  qed
  have n1: "length rs \<noteq> 1"
  proof
    assume "length rs = 1"
    with nxt xb show False by auto
  qed
  from len have "length rs \<le> 3" by simp
  with n0 n1 n3 have l2: "length rs = 2" by arith
  with each [rule_format, of 0] each [rule_format, of 1]
  have e0: "extractRanges (getQueriesThatCanUseIndex ?qs) ''a'' = Inr (rs ! 0)"
    and e1: "extractRanges (getQueriesThatCanUseIndex ?qs) ''b'' = Inr (rs ! 1)"
    by simp_all
  from e0 xa have "rs ! 0 = \<lparr>used = [clause 0 ''a'' IN (JsArray [JsNumber 1, JsNumber 2])],
           rangeStarts = [Value (JsNumber 1), Value (JsNumber 2)],
           rangeEndings = [RangeEdgeAfter (JsNumber 1), RangeEdgeAfter (JsNumber 2)]\<rparr>"
    by simp
  then have r0: "rangeStarts (rs ! 0) = [Value (JsNumber 1), Value (JsNumber 2)]" by simp
  from e1 xb have "rs ! 1 = \<lparr>used = [clause 1 ''b'' IN (JsArray [JsNumber 3, JsNumber 4])],
           rangeStarts = [Value (JsNumber 3), Value (JsNumber 4)],
           rangeEndings = [RangeEdgeAfter (JsNumber 3), RangeEdgeAfter (JsNumber 4)]\<rparr>"
    by simp
  then have r1: "rangeStarts (rs ! 1) = [Value (JsNumber 3), Value (JsNumber 4)]" by simp
  from l2 obtain a b where ab: "rs = [a, b]"
    by (cases rs; cases "tl rs") auto
  with r0 r1 have m: "map rangeStarts rs = [[Value (JsNumber 1), Value (JsNumber 2)],
                                   [Value (JsNumber 3), Value (JsNumber 4)]]"
    by simp
  from prod ab have pr: "(4::nat) = prod_list (map (\<lambda>r. length (rangeStarts r)) rs)"
    by simp
  have "\<exists>rs :: ExtractResult list. length rs = 2
          \<and> map rangeStarts rs = [[Value (JsNumber 1), Value (JsNumber 2)],
                                   [Value (JsNumber 3), Value (JsNumber 4)]]
          \<and> (4::nat) = prod_list (map (\<lambda>r. length (rangeStarts r)) rs)"
    using l2 m pr by (intro exI [of _ rs]) simp
  with p show ?thesis by (rule conjI)
qed

text \<open>C10 on the index \<open>[a, b]\<close> with \<open>{a: {eq: null}, b: {gte: 3}}\<close>.\<close>

theorem getIndexRanges_lockstep_witness:
  "extractRanges [clause 0 ''a'' EQ JsNull, clause 1 ''b'' GTE (JsNumber 3)] ''a''
     = Inr \<lparr>used = [clause 0 ''a'' EQ JsNull],
            rangeStarts = [Value JsNull, Value undefinedSymbol],
            rangeEndings = [RangeEdgeAfter JsNull, RangeEdgeAfter undefinedSymbol]\<rparr>
   \<and> length [Value JsNull, Value undefinedSymbol]
       = length [RangeEdgeAfter JsNull, RangeEdgeAfter undefinedSymbol]
   \<and> getIndexRanges [clause 0 ''a'' EQ JsNull, clause 1 ''b'' GTE (JsNumber 3)] [''a'', ''b'']
     = Inr \<lparr>usedQueries = [clause 0 ''a'' EQ JsNull, clause 1 ''b'' GTE (JsNumber 3)],
            ranges = [\<lparr>rangeStart = [Value JsNull, Value (JsNumber 3)],
                       rangeEnd = Some [RangeEdgeAfter JsNull, BinaryInfinityPositive]\<rparr>,
                      \<lparr>rangeStart = [Value undefinedSymbol, Value (JsNumber 3)],
                       rangeEnd = Some [RangeEdgeAfter undefinedSymbol, BinaryInfinityPositive]\<rparr>]\<rparr>
   \<and> (\<exists>e. rangeEnd \<lparr>rangeStart = [Value undefinedSymbol, Value (JsNumber 3)],
                       rangeEnd = Some [RangeEdgeAfter undefinedSymbol, BinaryInfinityPositive]\<rparr>
            = Some e
          \<and> length e = length (rangeStart \<lparr>rangeStart = [Value undefinedSymbol, Value (JsNumber 3)],
                       rangeEnd = Some [RangeEdgeAfter undefinedSymbol, BinaryInfinityPositive]\<rparr>))"
proof -
  let ?qs = "[clause 0 ''a'' EQ JsNull, clause 1 ''b'' GTE (JsNumber 3)]"
  let ?r = "\<lparr>used = [clause 0 ''a'' EQ JsNull],
            rangeStarts = [Value JsNull, Value undefinedSymbol],
            rangeEndings = [RangeEdgeAfter JsNull, RangeEdgeAfter undefinedSymbol]\<rparr>"
  let ?rg = "\<lparr>rangeStart = [Value undefinedSymbol, Value (JsNumber 3)],
                       rangeEnd = Some [RangeEdgeAfter undefinedSymbol, BinaryInfinityPositive]\<rparr>"
  let ?plan = "\<lparr>usedQueries = ?qs,
            ranges = [\<lparr>rangeStart = [Value JsNull, Value (JsNumber 3)],
                       rangeEnd = Some [RangeEdgeAfter JsNull, BinaryInfinityPositive]\<rparr>, ?rg]\<rparr>"
  have x: "extractRanges ?qs ''a'' = Inr ?r"
    by (simp add: eval_defs)
  have p: "getIndexRanges ?qs [''a'', ''b''] = Inr ?plan"
    by (simp add: eval_defs)
  note t = getIndexRanges_lockstep [of ?qs "''a''" ?qs "[''a'', ''b'']"]
  from t x have l: "length (rangeStarts ?r) = length (rangeEndings ?r)" by blast
  from t p have "\<forall>rg \<in> set (ranges ?plan). \<exists>e. rangeEnd rg = Some e \<and> length e = length (rangeStart rg)"
    by blast
  then have "\<exists>e. rangeEnd ?rg = Some e \<and> length e = length (rangeStart ?rg)"
    by simp
  with x p l show ?thesis by simp
qed

section \<open>Properties of the range executor\<close>

lemma scanRanges_all:
  assumes "\<forall>r \<in> set rs. rangeEnd r \<noteq> None"
  shows "scanRanges ctx lim off rs (found, trace) =
           Inr (found @ concat (map (\<lambda>r. getRange (indexes ctx) (rangeScanOptions ctx lim off r)) rs),
                trace @ map (\<lambda>r. GetRange (rangeScanOptions ctx lim off r)) rs)"
  using assms
proof (induction rs arbitrary: found trace)
  case Nil
  then show ?case by simp
next
  case (Cons r rs)
  from Cons.prems obtain e where e: "rangeEnd r = Some e" by auto
  from Cons.prems have "\<forall>r \<in> set rs. rangeEnd r \<noteq> None" by simp
  from Cons.IH [OF this] e show ?case
    by (simp add: rangeScanOptions_def Let_def)
qed

lemma deduplicateSeq_distinct:
  "deduplicateSeq keyFn registered xs = Inr ys \<Longrightarrow>
   distinct (map keyFn ys) \<and> (\<forall>y \<in> set ys. \<exists>k. keyFn y = Inr k \<and> k \<notin> set registered)
   \<and> set ys \<subseteq> set xs"
proof (induction xs arbitrary: registered ys)
  case Nil
  then show ?case by simp
next
  case (Cons x xs)
  show ?case
  proof (cases "keyFn x")
    case (Inl e)
    with Cons.prems show ?thesis by simp
  next
    case (Inr k)
    show ?thesis
    proof (cases "k \<in> set registered")
      case True
      with Inr Cons.prems have "deduplicateSeq keyFn registered xs = Inr ys" by simp
      from Cons.IH [OF this] show ?thesis by auto
    next
      case False
      with Inr Cons.prems obtain rest where
        r: "deduplicateSeq keyFn (k # registered) xs = Inr rest" and ys: "ys = x # rest"
        by (auto split: sum.splits)
      from Cons.IH [OF r] Inr False ys show ?thesis by auto
    qed
  qed
qed

lemma deduplicate_distinct:
  "deduplicate keyFn xs = Inr ys \<Longrightarrow> distinct (map keyFn ys) \<and> set ys \<subseteq> set xs"
  using deduplicateSeq_distinct [of keyFn "[]" xs ys] by (simp add: deduplicate_def)

lemma deduplicateSeq_snoc:
  "deduplicateSeq keyFn registered xs = Inr ys \<Longrightarrow> keyFn x = Inr k \<Longrightarrow>
   deduplicateSeq keyFn registered (xs @ [x]) =
     Inr (if k \<in> set registered \<or> Inr k \<in> keyFn ` set xs then ys else ys @ [x])"
proof (induction xs arbitrary: registered ys)
  case Nil
  then show ?case by simp
next
  case (Cons a xs)
  show ?case
  proof (cases "keyFn a")
    case (Inl e)
    with Cons.prems show ?thesis by simp
  next
    case (Inr j)
    show ?thesis
    proof (cases "j \<in> set registered")
      case True
      with Inr Cons.prems have "deduplicateSeq keyFn registered xs = Inr ys" by simp
      from Cons.IH [OF this Cons.prems(2)] Inr True show ?thesis by auto
    next
      case False
      with Inr Cons.prems obtain rest where
        r: "deduplicateSeq keyFn (j # registered) xs = Inr rest" and ys: "ys = a # rest"
        by (auto split: sum.splits)
      from Cons.IH [OF r Cons.prems(2)] Inr False ys show ?thesis by auto
    qed
  qed
qed

lemma deduplicate_first_occurrence:
  "deduplicate keyFn xs = Inr ys \<Longrightarrow> keyFn x = Inr k \<Longrightarrow>
   deduplicate keyFn (xs @ [x]) = Inr (if Inr k \<in> keyFn ` set xs then ys else ys @ [x])"
  using deduplicateSeq_snoc [of keyFn "[]" xs ys x k] by (simp add: deduplicate_def)

lemma limitAndOffset_limit:
  "fst (limitAndOffset ops ctx rs) =
     (if maxKeysPerItem ctx > 1
      then map_option (\<lambda>l. if numTruthy ops l then numTimes ops l (maxKeysPerItem ctx) else l)
             (limit ctx)
      else limit ctx)"
  by (cases "limit ctx") (auto simp: limitAndOffset_def truthy_def Let_def)

lemma limitAndOffset_offset:
  "snd (limitAndOffset ops ctx rs) =
     (if truthy ops (limit ctx) \<and> length rs > 1 then 0
      else (case offset ctx of None \<Rightarrow> 0 | Some n \<Rightarrow> n))"
  by (simp add: limitAndOffset_def Let_def)

lemma deduplicateSeq_firstOccurrences:
  "\<forall>x \<in> set xs. keyFn x = Inr (f x) \<Longrightarrow>
   deduplicateSeq keyFn registered xs =
     Inr (firstOccurrences f (filter (\<lambda>x. f x \<notin> set registered) xs))"
proof (induction xs arbitrary: registered)
  case Nil
  then show ?case by simp
next
  case (Cons x xs)
  from Cons.prems have kx: "keyFn x = Inr (f x)" and rest: "\<forall>y \<in> set xs. keyFn y = Inr (f y)"
    by simp_all
  show ?case
  proof (cases "f x \<in> set registered")
    case True
    with kx Cons.IH [OF rest, of registered] show ?thesis by simp
  next
    case False
    have "filter (\<lambda>y. f y \<noteq> f x) (filter (\<lambda>y. f y \<notin> set registered) xs)
        = filter (\<lambda>y. f y \<notin> set (f x # registered)) xs"
      by (induction xs) auto
    with False kx Cons.IH [OF rest, of "f x # registered"] show ?thesis by simp
  qed
qed

lemma deduplicate_firstOccurrences:
  "\<forall>x \<in> set xs. keyFn x = Inr (f x) \<Longrightarrow> deduplicate keyFn xs = Inr (firstOccurrences f xs)"
  using deduplicateSeq_firstOccurrences [of xs keyFn f "[]"] by (simp add: deduplicate_def)

lemma getIdentifier_last:
  "key e \<noteq> [] \<Longrightarrow> isNumberOrString (last (key e)) \<Longrightarrow> getIdentifier e = Inr (last (key e))"
  by (simp add: getIdentifier_def)

lemma getIdentifier_Inr: "getIdentifier e = Inr k \<Longrightarrow> k = last (key e) \<and> key e \<noteq> []"
  by (auto simp: getIdentifier_def Let_def split: if_splits)

lemma deduplicate_getIdentifier_distinct:
  assumes "deduplicate getIdentifier xs = Inr ys"
  shows "distinct (map (\<lambda>e. last (key e)) ys)"
proof -
  from assms have d: "distinct (map getIdentifier ys)"
    and ok: "\<forall>y \<in> set ys. \<exists>k. getIdentifier y = Inr k"
    using deduplicateSeq_distinct [of getIdentifier "[]" xs ys]
    by (auto simp: deduplicate_def)
  from ok have "\<forall>y \<in> set ys. getIdentifier y = Inr (last (key y))"
    using getIdentifier_Inr by blast
  then have "map getIdentifier ys = map (\<lambda>e. Inr (last (key e))) ys" by simp
  with d have "distinct (map (\<lambda>e. (Inr (last (key e)) :: error + IndexFieldValue)) ys)" by simp
  then have "distinct ys" and "inj_on (\<lambda>e. (Inr (last (key e)) :: error + IndexFieldValue)) (set ys)"
    by (simp_all add: distinct_map)
  then have "inj_on (\<lambda>e. last (key e)) (set ys)"
    by (auto simp: inj_on_def)
  with \<open>distinct ys\<close> show ?thesis by (simp add: distinct_map)
qed

text \<open>
  C6. On ranges that all have an end, \<open>performRangeScan\<close> issues one scan for each range,
  in order, each with the limit it reports as \<open>usedLimit\<close>; \<open>found\<close> is the concatenation
  of the scan results. When \<open>maxKeysPerItem > 1\<close>, a requested (truthy) limit is replaced by
  its product with \<open>maxKeysPerItem\<close>, no limit stays no limit, and a falsy limit stays as it
  is, which is its product again when the arithmetic leaves falsy numbers fixed, as that of
  doubles does for \<open>0\<close> and \<open>NaN\<close>. The entries are \<open>found\<close> deduplicated by
  \<open>getIdentifier\<close>: when every scanned key ends in a number or a string, they are the first
  occurrences in \<open>found\<close> by the last component of the key, and in any case no last key
  component occurs twice among them. When \<open>maxKeysPerItem \<le> 1\<close>, the limit is the
  requested one and the entries are \<open>found\<close> as it is.
\<close>

theorem performRangeScan_multikey:
  assumes "\<forall>r \<in> set rs. rangeEnd r \<noteq> None"
  shows "\<exists>res trace found. performRangeScan ops ctx rs usedQ = Inr (res, trace)
     \<and> trace = map (\<lambda>r. GetRange (rangeScanOptions ctx (usedLimit res) (usedOffset res) r)) rs
     \<and> found = concat (map (\<lambda>r. getRange (indexes ctx)
                (rangeScanOptions ctx (usedLimit res) (usedOffset res) r)) rs)
     \<and> (\<forall>r \<in> set rs. scanLimit (rangeScanOptions ctx (usedLimit res) (usedOffset res) r) = usedLimit res)
     \<and> (maxKeysPerItem ctx > 1 \<longrightarrow>
          usedLimit res =
            map_option (\<lambda>l. if numTruthy ops l then numTimes ops l (maxKeysPerItem ctx) else l)
              (limit ctx)
        \<and> ((\<forall>l. \<not> numTruthy ops l \<longrightarrow> numTimes ops l (maxKeysPerItem ctx) = l) \<longrightarrow>
             usedLimit res = map_option (\<lambda>l. numTimes ops l (maxKeysPerItem ctx)) (limit ctx))
        \<and> entries res = deduplicate getIdentifier found
        \<and> ((\<forall>e \<in> set found. key e \<noteq> [] \<and> isNumberOrString (last (key e))) \<longrightarrow>
             entries res = Inr (firstOccurrences (\<lambda>e. last (key e)) found))
        \<and> (\<forall>es. entries res = Inr es \<longrightarrow> distinct (map (\<lambda>e. last (key e)) es)))
     \<and> (maxKeysPerItem ctx \<le> 1 \<longrightarrow> usedLimit res = limit ctx \<and> entries res = Inr found)"
proof -
  obtain lim off where lo: "limitAndOffset ops ctx rs = (lim, off)"
    by (cases "limitAndOffset ops ctx rs") auto
  let ?found = "concat (map (\<lambda>r. getRange (indexes ctx) (rangeScanOptions ctx lim off r)) rs)"
  let ?trace = "map (\<lambda>r. GetRange (rangeScanOptions ctx lim off r)) rs"
  let ?res = "\<lparr>entries = (if maxKeysPerItem ctx > 1 then deduplicate getIdentifier ?found
                            else Inr ?found),
               usedLimit = lim, usedOffset = off, resultUsedQueries = usedQ\<rparr>"
  have run: "performRangeScan ops ctx rs usedQ = Inr (?res, ?trace)"
    using lo scanRanges_all [OF assms, of ctx lim off "[]" "[]"]
    by (simp add: performRangeScan_def)
  have lim: "lim = (if maxKeysPerItem ctx > 1
      then map_option (\<lambda>l. if numTruthy ops l then numTimes ops l (maxKeysPerItem ctx) else l)
             (limit ctx)
      else limit ctx)"
    using lo limitAndOffset_limit [of ops ctx rs] by simp
  have lim2: "maxKeysPerItem ctx > 1 \<longrightarrow>
      (\<forall>l. \<not> numTruthy ops l \<longrightarrow> numTimes ops l (maxKeysPerItem ctx) = l) \<longrightarrow>
      lim = map_option (\<lambda>l. numTimes ops l (maxKeysPerItem ctx)) (limit ctx)"
    using lim by (cases "limit ctx") auto
  have sl: "\<forall>r \<in> set rs. scanLimit (rangeScanOptions ctx lim off r) = lim"
    by (simp add: rangeScanOptions_def scanOptions_def)
  have fo: "(\<forall>e \<in> set ?found. key e \<noteq> [] \<and> isNumberOrString (last (key e))) \<longrightarrow>
      deduplicate getIdentifier ?found = Inr (firstOccurrences (\<lambda>e. last (key e)) ?found)"
  proof
    assume "\<forall>e \<in> set ?found. key e \<noteq> [] \<and> isNumberOrString (last (key e))"
    then have "\<forall>e \<in> set ?found. getIdentifier e = Inr (last (key e))"
      using getIdentifier_last by blast
    then show "deduplicate getIdentifier ?found = Inr (firstOccurrences (\<lambda>e. last (key e)) ?found)"
      by (rule deduplicate_firstOccurrences)
  qed
  have dd: "\<forall>es. deduplicate getIdentifier ?found = Inr es \<longrightarrow>
      distinct (map (\<lambda>e. last (key e)) es)"
    using deduplicate_getIdentifier_distinct by blast
  have multi: "maxKeysPerItem ctx > 1 \<longrightarrow>
          usedLimit ?res =
            map_option (\<lambda>l. if numTruthy ops l then numTimes ops l (maxKeysPerItem ctx) else l)
              (limit ctx)
        \<and> ((\<forall>l. \<not> numTruthy ops l \<longrightarrow> numTimes ops l (maxKeysPerItem ctx) = l) \<longrightarrow>
             usedLimit ?res = map_option (\<lambda>l. numTimes ops l (maxKeysPerItem ctx)) (limit ctx))
        \<and> entries ?res = deduplicate getIdentifier ?found
        \<and> ((\<forall>e \<in> set ?found. key e \<noteq> [] \<and> isNumberOrString (last (key e))) \<longrightarrow>
             entries ?res = Inr (firstOccurrences (\<lambda>e. last (key e)) ?found))
        \<and> (\<forall>es. entries ?res = Inr es \<longrightarrow> distinct (map (\<lambda>e. last (key e)) es))"
  proof
    assume m: "maxKeysPerItem ctx > 1"
    have e: "entries ?res = deduplicate getIdentifier ?found" using m by simp
    have ul: "usedLimit ?res = lim" by simp
    from lim m have l1: "lim =
        map_option (\<lambda>l. if numTruthy ops l then numTimes ops l (maxKeysPerItem ctx) else l)
          (limit ctx)" by simp
    from lim2 m have l2: "(\<forall>l. \<not> numTruthy ops l \<longrightarrow> numTimes ops l (maxKeysPerItem ctx) = l) \<longrightarrow>
        lim = map_option (\<lambda>l. numTimes ops l (maxKeysPerItem ctx)) (limit ctx)" by blast
    show "usedLimit ?res =
            map_option (\<lambda>l. if numTruthy ops l then numTimes ops l (maxKeysPerItem ctx) else l)
              (limit ctx)
        \<and> ((\<forall>l. \<not> numTruthy ops l \<longrightarrow> numTimes ops l (maxKeysPerItem ctx) = l) \<longrightarrow>
             usedLimit ?res = map_option (\<lambda>l. numTimes ops l (maxKeysPerItem ctx)) (limit ctx))
        \<and> entries ?res = deduplicate getIdentifier ?found
        \<and> ((\<forall>e \<in> set ?found. key e \<noteq> [] \<and> isNumberOrString (last (key e))) \<longrightarrow>
             entries ?res = Inr (firstOccurrences (\<lambda>e. last (key e)) ?found))
        \<and> (\<forall>es. entries ?res = Inr es \<longrightarrow> distinct (map (\<lambda>e. last (key e)) es))"
      unfolding e ul using l1 l2 fo dd by (intro conjI) (rule refl | assumption)+
  qed
  have single: "maxKeysPerItem ctx \<le> 1 \<longrightarrow> usedLimit ?res = limit ctx \<and> entries ?res = Inr ?found"
  proof
    assume m: "maxKeysPerItem ctx \<le> 1"
    with lim have "lim = limit ctx" by simp
    with m show "usedLimit ?res = limit ctx \<and> entries ?res = Inr ?found" by simp
  qed
  have tr: "?trace = map (\<lambda>r. GetRange (rangeScanOptions ctx (usedLimit ?res) (usedOffset ?res) r)) rs"
    by simp
  have fd: "?found = concat (map (\<lambda>r. getRange (indexes ctx)
                (rangeScanOptions ctx (usedLimit ?res) (usedOffset ?res) r)) rs)"
    by simp
  have sl': "\<forall>r \<in> set rs. scanLimit (rangeScanOptions ctx (usedLimit ?res) (usedOffset ?res) r)
      = usedLimit ?res"
    using sl by simp
  from run tr fd sl' multi single show ?thesis
    by (intro exI [of _ ?res] exI [of _ ?trace] exI [of _ ?found] conjI)
qed

section \<open>Properties of the counter\<close>

lemma countRanges_all:
  assumes "\<forall>r \<in> set rs. rangeEnd r \<noteq> None"
  shows "countRanges ctx rs (n, trace) =
           Inr (n + sum_list (map (\<lambda>r. getKeysCount (indexes ctx) (rangeCountOptions ctx r)) rs),
                trace @ map (\<lambda>r. GetKeysCount (rangeCountOptions ctx r)) rs)"
  using assms
proof (induction rs arbitrary: n trace)
  case Nil
  then show ?case by simp
next
  case (Cons r rs)
  from Cons.prems obtain e where e: "rangeEnd r = Some e" by auto
  from Cons.prems have "\<forall>r \<in> set rs. rangeEnd r \<noteq> None" by simp
  from Cons.IH [OF this] e show ?case
    by (simp add: rangeCountOptions_def Let_def)
qed

lemma getQueriesThatCanUseIndex_subset: "set (getQueriesThatCanUseIndex qs) \<subseteq> set qs"
  by (auto simp: getQueriesThatCanUseIndex_def)

lemma getIndexRanges_used:
  assumes "getIndexRanges qs fs = Inr plan"
  shows "set (usedQueries plan) \<subseteq> set qs \<and> distinct (usedQueries plan)"
proof -
  from assms obtain u ss es where
    c: "collectRanges (getQueriesThatCanUseIndex qs) fs ([], [], []) = Inr (u, ss, es)"
    by (auto simp: getIndexRanges_def split: sum.splits)
  from assms c have "usedQueries plan = u"
    by (auto simp: getIndexRanges_def split: if_splits)
  with collectRanges_invariant [OF c] getQueriesThatCanUseIndex_subset [of qs]
  show ?thesis by auto
qed

lemma getIndexRanges_ends:
  assumes "getIndexRanges qs fs = Inr plan"
  shows "\<forall>r \<in> set (ranges plan). rangeEnd r \<noteq> None"
proof -
  obtain u ss es where
    c: "collectRanges (getQueriesThatCanUseIndex qs) fs ([], [], []) = Inr (u, ss, es)"
    using assms by (auto simp: getIndexRanges_def split: sum.splits)
  from collectRanges_invariant [OF c]
  have "list_all2 (\<lambda>s e. length s = length e) ss es" by simp
  then have cnt: "length (cartesianProduct es) = length (cartesianProduct ss)"
    using cartesianProduct_same_count [of ss es] by simp
  show ?thesis
  proof (cases "ss = []")
    case True
    with assms c show ?thesis by (auto simp: getIndexRanges_def)
  next
    case False
    with assms c have "ranges plan = composeRanges (cartesianProduct ss) (cartesianProduct es)"
      by (auto simp: getIndexRanges_def)
    with cnt show ?thesis
      by (auto simp: composeRanges_def nthOpt_def)
  qed
qed

lemma used_size_unresolved:
  assumes sub: "set u \<subseteq> set qs" and d: "distinct u" and q: "q \<in> set qs" "q \<notin> set u"
  shows "length u \<noteq> length qs"
proof -
  from sub q have "set u \<subset> set qs" by auto
  then have "card (set u) < card (set qs)" by (simp add: psubset_card_mono)
  moreover have "card (set qs) \<le> length qs" by (rule card_length)
  moreover from d have "card (set u) = length u" by (rule distinct_card)
  ultimately show ?thesis by simp
qed

lemma used_size_resolved:
  assumes sub: "set u \<subseteq> set qs" and d: "distinct u" and dq: "distinct qs" and all: "set qs \<subseteq> set u"
  shows "length u = length qs"
proof -
  from sub all have "set u = set qs" by auto
  with d dq show ?thesis by (metis distinct_card)
qed

lemma countUsingIndex_resolved:
  assumes "getIndexRanges (dbQueries ctx) (indexFields ctx) = Inr plan"
    and "length (usedQueries plan) = length (dbQueries ctx)"
    and "maxKeysPerItem ctx \<le> 1"
  shows "countUsingIndex ctx =
     (if ranges plan = []
      then Inr (getKeysCount (indexes ctx)
                  (countOptions [Value (keyPrefix ctx)] [getValueEdgeAfter (keyPrefix ctx)]),
                [GetKeysCount
                  (countOptions [Value (keyPrefix ctx)] [getValueEdgeAfter (keyPrefix ctx)])])
      else countRanges ctx (ranges plan) (0, []))"
  using assms by (simp add: countUsingIndex_def Let_def)

lemma countUsingIndex_unresolved:
  assumes "getIndexRanges (dbQueries ctx) (indexFields ctx) = Inr plan"
    and "length (usedQueries plan) \<noteq> length (dbQueries ctx)"
  shows "countUsingIndex ctx = Inl CannotCountUnresolved"
  using assms by (simp add: countUsingIndex_def)

lemma countUsingIndex_multikey:
  assumes "getIndexRanges (dbQueries ctx) (indexFields ctx) = Inr plan"
    and "maxKeysPerItem ctx > 1"
  shows "countUsingIndex ctx = Inl CannotCountUnresolved
          \<or> countUsingIndex ctx = Inl CannotCountMultiKey"
  using assms by (simp add: countUsingIndex_def)

text \<open>
  C8 (as amended). \<open>countUsingIndex\<close> fails when planning fails. When planning returns a plan, it fails
  (unresolved filter) whenever some clause of \<open>dbQueries\<close> is not in \<open>usedQueries\<close>, and
  it fails whenever \<open>maxKeysPerItem > 1\<close>. When the clauses of \<open>dbQueries\<close> are pairwise
  distinct objects, all of them are used and \<open>maxKeysPerItem \<le> 1\<close>, it returns the key
  count of \<open>[keyPrefix] .. [edgeAfter keyPrefix]\<close> if there is no range, and otherwise the
  sum of the key counts of the ranges, each with \<open>keyPrefix\<close> prepended to both boundaries;
  the engine is asked exactly these counts, in order.
\<close>

theorem countUsingIndex_contract:
  "(\<forall>e. getIndexRanges (dbQueries ctx) (indexFields ctx) = Inl e \<longrightarrow> countUsingIndex ctx = Inl e)
   \<and> (\<forall>plan. getIndexRanges (dbQueries ctx) (indexFields ctx) = Inr plan \<longrightarrow>
        ((\<exists>q \<in> set (dbQueries ctx). q \<notin> set (usedQueries plan)) \<longrightarrow>
            countUsingIndex ctx = Inl CannotCountUnresolved)
      \<and> (maxKeysPerItem ctx > 1 \<longrightarrow>
            countUsingIndex ctx = Inl CannotCountUnresolved
          \<or> countUsingIndex ctx = Inl CannotCountMultiKey)
      \<and> (distinct (dbQueries ctx) \<and> set (dbQueries ctx) \<subseteq> set (usedQueries plan)
            \<and> maxKeysPerItem ctx \<le> 1 \<longrightarrow>
           (ranges plan = [] \<longrightarrow>
              countUsingIndex ctx =
                Inr (getKeysCount (indexes ctx)
                       (countOptions [Value (keyPrefix ctx)] [getValueEdgeAfter (keyPrefix ctx)]),
                     [GetKeysCount
                       (countOptions [Value (keyPrefix ctx)] [getValueEdgeAfter (keyPrefix ctx)])]))
         \<and> (ranges plan \<noteq> [] \<longrightarrow>
              countUsingIndex ctx =
                Inr (sum_list (map (\<lambda>r. getKeysCount (indexes ctx) (rangeCountOptions ctx r))
                       (ranges plan)),
                     map (\<lambda>r. GetKeysCount (rangeCountOptions ctx r)) (ranges plan)))))"
proof (intro conjI allI impI)
  fix e assume "getIndexRanges (dbQueries ctx) (indexFields ctx) = Inl e"
  then show "countUsingIndex ctx = Inl e" by (simp add: countUsingIndex_def)
next
  fix plan assume p: "getIndexRanges (dbQueries ctx) (indexFields ctx) = Inr plan"
    and "\<exists>q \<in> set (dbQueries ctx). q \<notin> set (usedQueries plan)"
  then obtain q where q: "q \<in> set (dbQueries ctx)" "q \<notin> set (usedQueries plan)" by blast
  from getIndexRanges_used [OF p]
  have u: "set (usedQueries plan) \<subseteq> set (dbQueries ctx)" "distinct (usedQueries plan)"
    by simp_all
  have "length (usedQueries plan) \<noteq> length (dbQueries ctx)"
    by (rule used_size_unresolved [OF u q])
  then show "countUsingIndex ctx = Inl CannotCountUnresolved"
    by (rule countUsingIndex_unresolved [OF p])
next
  fix plan assume p: "getIndexRanges (dbQueries ctx) (indexFields ctx) = Inr plan"
    and "maxKeysPerItem ctx > 1"
  then show "countUsingIndex ctx = Inl CannotCountUnresolved
          \<or> countUsingIndex ctx = Inl CannotCountMultiKey"
    by (rule countUsingIndex_multikey)
next
  fix plan assume p: "getIndexRanges (dbQueries ctx) (indexFields ctx) = Inr plan"
    and h: "distinct (dbQueries ctx) \<and> set (dbQueries ctx) \<subseteq> set (usedQueries plan)
            \<and> maxKeysPerItem ctx \<le> 1"
    and e: "ranges plan = []"
  from getIndexRanges_used [OF p]
  have u: "set (usedQueries plan) \<subseteq> set (dbQueries ctx)" "distinct (usedQueries plan)"
    by simp_all
  from h have h1: "distinct (dbQueries ctx)" and h2: "set (dbQueries ctx) \<subseteq> set (usedQueries plan)"
    and h3: "maxKeysPerItem ctx \<le> 1" by simp_all
  have len: "length (usedQueries plan) = length (dbQueries ctx)"
    by (rule used_size_resolved [OF u h1 h2])
  show "countUsingIndex ctx =
                Inr (getKeysCount (indexes ctx)
                       (countOptions [Value (keyPrefix ctx)] [getValueEdgeAfter (keyPrefix ctx)]),
                     [GetKeysCount
                       (countOptions [Value (keyPrefix ctx)] [getValueEdgeAfter (keyPrefix ctx)])])"
    unfolding countUsingIndex_resolved [OF p len h3] using e by simp
next
  fix plan assume p: "getIndexRanges (dbQueries ctx) (indexFields ctx) = Inr plan"
    and h: "distinct (dbQueries ctx) \<and> set (dbQueries ctx) \<subseteq> set (usedQueries plan)
            \<and> maxKeysPerItem ctx \<le> 1"
    and e: "ranges plan \<noteq> []"
  from getIndexRanges_used [OF p]
  have u: "set (usedQueries plan) \<subseteq> set (dbQueries ctx)" "distinct (usedQueries plan)"
    by simp_all
  from h have h1: "distinct (dbQueries ctx)" and h2: "set (dbQueries ctx) \<subseteq> set (usedQueries plan)"
    and h3: "maxKeysPerItem ctx \<le> 1" by simp_all
  have len: "length (usedQueries plan) = length (dbQueries ctx)"
    by (rule used_size_resolved [OF u h1 h2])
  have cr: "countRanges ctx (ranges plan) (0, []) =
      Inr (sum_list (map (\<lambda>r. getKeysCount (indexes ctx) (rangeCountOptions ctx r)) (ranges plan)),
           map (\<lambda>r. GetKeysCount (rangeCountOptions ctx r)) (ranges plan))"
    using countRanges_all [OF getIndexRanges_ends [OF p], of ctx 0 "[]"] by simp
  show "countUsingIndex ctx =
                Inr (sum_list (map (\<lambda>r. getKeysCount (indexes ctx) (rangeCountOptions ctx r))
                       (ranges plan)),
                     map (\<lambda>r. GetKeysCount (rangeCountOptions ctx r)) (ranges plan))"
    unfolding countUsingIndex_resolved [OF p len h3] using e cr by simp
qed

text \<open>
  C8 on \<open>{a: {in: [1, 2]}}\<close> with an engine that counts two keys in every range, and on
  \<open>{a: {eq: 1}, t: {eq: 2}}\<close>, whose clause on \<open>t\<close> the index on \<open>[a]\<close> cannot resolve.
\<close>

theorem countUsingIndex_contract_witness:
  "countUsingIndex
     \<lparr>indexes = \<lparr>getRange = (\<lambda>opts. []), getKeysCount = (\<lambda>opts. 2)\<rparr>,
      dbQueries = [clause 0 ''a'' IN (JsArray [JsNumber 1, JsNumber 2])],
      indexFields = [''a''], keyPrefix = JsString ''idx'', maxKeysPerItem = 1,
      limit = (None :: 'n option), offset = None, reverse = False\<rparr>
     = Inr (4,
         [GetKeysCount (countOptions [Value (JsString ''idx''), Value (JsNumber 1)]
                          [Value (JsString ''idx''), RangeEdgeAfter (JsNumber 1)]),
          GetKeysCount (countOptions [Value (JsString ''idx''), Value (JsNumber 2)]
                          [Value (JsString ''idx''), RangeEdgeAfter (JsNumber 2)])])
   \<and> countUsingIndex
     \<lparr>indexes = \<lparr>getRange = (\<lambda>opts. []), getKeysCount = (\<lambda>opts. 2)\<rparr>,
      dbQueries = [clause 0 ''a'' EQ (JsNumber 1), clause 1 ''t'' EQ (JsNumber 2)],
      indexFields = [''a''], keyPrefix = JsString ''idx'', maxKeysPerItem = 1,
      limit = (None :: 'n option), offset = None, reverse = False\<rparr>
     = Inl CannotCountUnresolved"
proof -
  let ?ix = "\<lparr>getRange = (\<lambda>opts. []), getKeysCount = (\<lambda>opts. 2)\<rparr>"
  let ?c1 = "\<lparr>indexes = ?ix,
      dbQueries = [clause 0 ''a'' IN (JsArray [JsNumber 1, JsNumber 2])],
      indexFields = [''a''], keyPrefix = JsString ''idx'', maxKeysPerItem = 1,
      limit = (None :: 'n option), offset = None, reverse = False\<rparr>"
  let ?c2 = "\<lparr>indexes = ?ix,
      dbQueries = [clause 0 ''a'' EQ (JsNumber 1), clause 1 ''t'' EQ (JsNumber 2)],
      indexFields = [''a''], keyPrefix = JsString ''idx'', maxKeysPerItem = 1,
      limit = (None :: 'n option), offset = None, reverse = False\<rparr>"
  let ?p1 = "\<lparr>usedQueries = [clause 0 ''a'' IN (JsArray [JsNumber 1, JsNumber 2])],
      ranges = [\<lparr>rangeStart = [Value (JsNumber 1)], rangeEnd = Some [RangeEdgeAfter (JsNumber 1)]\<rparr>,
                \<lparr>rangeStart = [Value (JsNumber 2)], rangeEnd = Some [RangeEdgeAfter (JsNumber 2)]\<rparr>]\<rparr>"
  let ?p2 = "\<lparr>usedQueries = [clause 0 ''a'' EQ (JsNumber 1)],
      ranges = [\<lparr>rangeStart = [Value (JsNumber 1)], rangeEnd = Some [RangeEdgeAfter (JsNumber 1)]\<rparr>]\<rparr>"
  have p1: "getIndexRanges (dbQueries ?c1) (indexFields ?c1) = Inr ?p1"
    by (simp add: eval_defs)
  have p2: "getIndexRanges (dbQueries ?c2) (indexFields ?c2) = Inr ?p2"
    by (simp add: eval_defs)
  from countUsingIndex_contract [of ?c1] p1
  have r1: "distinct (dbQueries ?c1) \<and> set (dbQueries ?c1) \<subseteq> set (usedQueries ?p1)
            \<and> maxKeysPerItem ?c1 \<le> 1 \<longrightarrow>
        (ranges ?p1 \<noteq> [] \<longrightarrow>
              countUsingIndex ?c1 =
                Inr (sum_list (map (\<lambda>r. getKeysCount (indexes ?c1) (rangeCountOptions ?c1 r))
                       (ranges ?p1)),
                     map (\<lambda>r. GetKeysCount (rangeCountOptions ?c1 r)) (ranges ?p1)))"
    by blast
  from countUsingIndex_contract [of ?c2] p2
  have r2: "(\<exists>q \<in> set (dbQueries ?c2). q \<notin> set (usedQueries ?p2)) \<longrightarrow>
            countUsingIndex ?c2 = Inl CannotCountUnresolved"
    by blast
  have a: "countUsingIndex ?c1 = Inr (4,
         [GetKeysCount (countOptions [Value (JsString ''idx''), Value (JsNumber 1)]
                          [Value (JsString ''idx''), RangeEdgeAfter (JsNumber 1)]),
          GetKeysCount (countOptions [Value (JsString ''idx''), Value (JsNumber 2)]
                          [Value (JsString ''idx''), RangeEdgeAfter (JsNumber 2)])])"
    using r1 by (simp add: rangeCountOptions_def)
  have b: "countUsingIndex ?c2 = Inl CannotCountUnresolved"
    using r2 by simp
  from a b show ?thesis by simp
qed

text \<open>
  C8 as stated fails: when the same clause object occurs twice in \<open>dbQueries\<close>, every
  clause is used and \<open>maxKeysPerItem = 1\<close>, but the size of the used set (1) is not the
  length of \<open>dbQueries\<close> (2), and \<open>countUsingIndex\<close> fails.
\<close>

theorem countUsingIndex_contract_counterexample:
  "getIndexRanges [clause 0 ''a'' EQ (JsNumber 1), clause 0 ''a'' EQ (JsNumber 1)] [''a'']
     = Inr \<lparr>usedQueries = [clause 0 ''a'' EQ (JsNumber 1)],
            ranges = [\<lparr>rangeStart = [Value (JsNumber 1)],
                       rangeEnd = Some [RangeEdgeAfter (JsNumber 1)]\<rparr>]\<rparr>
   \<and> countUsingIndex
     \<lparr>indexes = \<lparr>getRange = (\<lambda>opts. []), getKeysCount = (\<lambda>opts. 2)\<rparr>,
      dbQueries = [clause 0 ''a'' EQ (JsNumber 1), clause 0 ''a'' EQ (JsNumber 1)],
      indexFields = [''a''], keyPrefix = JsString ''idx'', maxKeysPerItem = 1,
      limit = None, offset = None, reverse = False\<rparr>
     = Inl CannotCountUnresolved"
  by (simp add: countUsingIndex_def eval_defs)

text \<open>
  C6 on one range whose scan returns three entries, the first and the third of the same
  node, with limit 10 and exact integer arithmetic: with \<open>maxKeysPerItem = 3\<close> the scan is
  limited to 30 and the third entry is dropped; with \<open>maxKeysPerItem = 1\<close> the scan is
  limited to 10 and the three entries are returned.
\<close>

theorem performRangeScan_multikey_witness:
  "performRangeScan \<lparr>numTruthy = (\<lambda>n :: int. n \<noteq> 0), numTimes = (\<lambda>l m. l * m)\<rparr>
     \<lparr>indexes = \<lparr>getRange = (\<lambda>opts.
                    [\<lparr>key = [JsString ''idx'', JsNumber 1, JsString ''n1''], nodeId = ''n1''\<rparr>,
                     \<lparr>key = [JsString ''idx'', JsNumber 1, JsString ''n2''], nodeId = ''n2''\<rparr>,
                     \<lparr>key = [JsString ''idx'', JsNumber 2, JsString ''n1''], nodeId = ''n1''\<rparr>]),
                 getKeysCount = (\<lambda>opts. 3)\<rparr>,
      dbQueries = [clause 0 ''a'' GTE (JsNumber 1)],
      indexFields = [''a''], keyPrefix = JsString ''idx'', maxKeysPerItem = 3,
      limit = Some 10, offset = None, reverse = False\<rparr>
     [\<lparr>rangeStart = [Value (JsNumber 1)], rangeEnd = Some [BinaryInfinityPositive]\<rparr>] []
   = Inr (\<lparr>entries = Inr [\<lparr>key = [JsString ''idx'', JsNumber 1, JsString ''n1''], nodeId = ''n1''\<rparr>,
                           \<lparr>key = [JsString ''idx'', JsNumber 1, JsString ''n2''], nodeId = ''n2''\<rparr>],
           usedLimit = Some 30, usedOffset = 0, resultUsedQueries = []\<rparr>,
          [GetRange \<lparr>scanStart = [Value (JsString ''idx''), Value (JsNumber 1)],
                     scanEnd = [Value (JsString ''idx''), BinaryInfinityPositive],
                     scanLimit = Some 30, scanOffset = Some 0, scanReverse = False,
                     snapshot = False\<rparr>])
   \<and> performRangeScan \<lparr>numTruthy = (\<lambda>n :: int. n \<noteq> 0), numTimes = (\<lambda>l m. l * m)\<rparr>
     \<lparr>indexes = \<lparr>getRange = (\<lambda>opts.
                    [\<lparr>key = [JsString ''idx'', JsNumber 1, JsString ''n1''], nodeId = ''n1''\<rparr>,
                     \<lparr>key = [JsString ''idx'', JsNumber 1, JsString ''n2''], nodeId = ''n2''\<rparr>,
                     \<lparr>key = [JsString ''idx'', JsNumber 2, JsString ''n1''], nodeId = ''n1''\<rparr>]),
                 getKeysCount = (\<lambda>opts. 3)\<rparr>,
      dbQueries = [clause 0 ''a'' GTE (JsNumber 1)],
      indexFields = [''a''], keyPrefix = JsString ''idx'', maxKeysPerItem = 1,
      limit = Some 10, offset = None, reverse = False\<rparr>
     [\<lparr>rangeStart = [Value (JsNumber 1)], rangeEnd = Some [BinaryInfinityPositive]\<rparr>] []
   = Inr (\<lparr>entries = Inr [\<lparr>key = [JsString ''idx'', JsNumber 1, JsString ''n1''], nodeId = ''n1''\<rparr>,
                           \<lparr>key = [JsString ''idx'', JsNumber 1, JsString ''n2''], nodeId = ''n2''\<rparr>,
                           \<lparr>key = [JsString ''idx'', JsNumber 2, JsString ''n1''], nodeId = ''n1''\<rparr>],
           usedLimit = Some 10, usedOffset = 0, resultUsedQueries = []\<rparr>,
          [GetRange \<lparr>scanStart = [Value (JsString ''idx''), Value (JsNumber 1)],
                     scanEnd = [Value (JsString ''idx''), BinaryInfinityPositive],
                     scanLimit = Some 10, scanOffset = Some 0, scanReverse = False,
                     snapshot = False\<rparr>])"
proof -
  let ?ops = "\<lparr>numTruthy = (\<lambda>n :: int. n \<noteq> 0), numTimes = (\<lambda>l m. l * m)\<rparr>"
  let ?e = "\<lparr>key = [JsString ''idx'', JsNumber 1, JsString ''n1''], nodeId = ''n1''\<rparr>"
  let ?f = "\<lparr>key = [JsString ''idx'', JsNumber 1, JsString ''n2''], nodeId = ''n2''\<rparr>"
  let ?g = "\<lparr>key = [JsString ''idx'', JsNumber 2, JsString ''n1''], nodeId = ''n1''\<rparr>"
  let ?c = "\<lparr>indexes = \<lparr>getRange = (\<lambda>opts. [?e, ?f, ?g]), getKeysCount = (\<lambda>opts. 3)\<rparr>,
      dbQueries = [clause 0 ''a'' GTE (JsNumber 1)],
      indexFields = [''a''], keyPrefix = JsString ''idx'', maxKeysPerItem = 3,
      limit = Some (10 :: int), offset = None, reverse = False\<rparr>"
  let ?d = "\<lparr>indexes = \<lparr>getRange = (\<lambda>opts. [?e, ?f, ?g]), getKeysCount = (\<lambda>opts. 3)\<rparr>,
      dbQueries = [clause 0 ''a'' GTE (JsNumber 1)],
      indexFields = [''a''], keyPrefix = JsString ''idx'', maxKeysPerItem = 1,
      limit = Some (10 :: int), offset = None, reverse = False\<rparr>"
  let ?rs = "[\<lparr>rangeStart = [Value (JsNumber 1)], rangeEnd = Some [BinaryInfinityPositive]\<rparr>]"
  have h: "\<forall>r \<in> set ?rs. rangeEnd r \<noteq> None" by simp
  have first: "performRangeScan ?ops ?c ?rs []
     = Inr (\<lparr>entries = Inr [?e, ?f], usedLimit = Some 30, usedOffset = 0, resultUsedQueries = []\<rparr>,
          [GetRange \<lparr>scanStart = [Value (JsString ''idx''), Value (JsNumber 1)],
                     scanEnd = [Value (JsString ''idx''), BinaryInfinityPositive],
                     scanLimit = Some 30, scanOffset = Some 0, scanReverse = False,
                     snapshot = False\<rparr>])"
  proof -
    from performRangeScan_multikey [OF h, of ?ops ?c "[]"] obtain res trace found where
      run: "performRangeScan ?ops ?c ?rs [] = Inr (res, trace)"
      and tr: "trace = map (\<lambda>r. GetRange (rangeScanOptions ?c (usedLimit res) (usedOffset res) r)) ?rs"
      and fd: "found = concat (map (\<lambda>r. getRange (indexes ?c)
                (rangeScanOptions ?c (usedLimit res) (usedOffset res) r)) ?rs)"
      and mk: "maxKeysPerItem ?c > 1 \<longrightarrow>
            usedLimit res =
              map_option (\<lambda>l. if numTruthy ?ops l then numTimes ?ops l (maxKeysPerItem ?c) else l)
                (limit ?c)
          \<and> ((\<forall>e \<in> set found. key e \<noteq> [] \<and> isNumberOrString (last (key e))) \<longrightarrow>
               entries res = Inr (firstOccurrences (\<lambda>e. last (key e)) found))"
      by blast
    have off: "usedOffset res = 0" and uq: "resultUsedQueries res = []"
      using run by (auto simp: performRangeScan_def limitAndOffset_def truthy_def Let_def
          split: sum.splits prod.splits)
    from fd have fd': "found = [?e, ?f, ?g]" by simp
    from mk have lim: "usedLimit res = Some 30" by simp
    from mk fd' have ent: "entries res = Inr [?e, ?f]" by simp
    have "res = \<lparr>entries = Inr [?e, ?f], usedLimit = Some 30, usedOffset = 0,
        resultUsedQueries = []\<rparr>"
      using off uq lim ent by (cases res) simp
    with run tr show ?thesis
      by (simp add: rangeScanOptions_def scanOptions_def)
  qed
  have second: "performRangeScan ?ops ?d ?rs []
     = Inr (\<lparr>entries = Inr [?e, ?f, ?g], usedLimit = Some 10, usedOffset = 0,
             resultUsedQueries = []\<rparr>,
          [GetRange \<lparr>scanStart = [Value (JsString ''idx''), Value (JsNumber 1)],
                     scanEnd = [Value (JsString ''idx''), BinaryInfinityPositive],
                     scanLimit = Some 10, scanOffset = Some 0, scanReverse = False,
                     snapshot = False\<rparr>])"
  proof -
    from performRangeScan_multikey [OF h, of ?ops ?d "[]"] obtain res trace found where
      run: "performRangeScan ?ops ?d ?rs [] = Inr (res, trace)"
      and tr: "trace = map (\<lambda>r. GetRange (rangeScanOptions ?d (usedLimit res) (usedOffset res) r)) ?rs"
      and fd: "found = concat (map (\<lambda>r. getRange (indexes ?d)
                (rangeScanOptions ?d (usedLimit res) (usedOffset res) r)) ?rs)"
      and mk: "maxKeysPerItem ?d \<le> 1 \<longrightarrow> usedLimit res = limit ?d \<and> entries res = Inr found"
      by blast
    have off: "usedOffset res = 0" and uq: "resultUsedQueries res = []"
      using run by (auto simp: performRangeScan_def limitAndOffset_def truthy_def Let_def
          split: sum.splits prod.splits)
    from fd have fd': "found = [?e, ?f, ?g]" by simp
    from mk have lim: "usedLimit res = Some 10" by simp
    from mk fd' have ent: "entries res = Inr [?e, ?f, ?g]" by simp
    have "res = \<lparr>entries = Inr [?e, ?f, ?g], usedLimit = Some 10, usedOffset = 0,
        resultUsedQueries = []\<rparr>"
      using off uq lim ent by (cases res) simp
    with run tr show ?thesis
      by (simp add: rangeScanOptions_def scanOptions_def)
  qed
  from first second show ?thesis by (rule conjI)
qed

section \<open>Where the executor departs from its description\<close>

text \<open>
  The offset of every scan is the one reported as \<open>usedOffset\<close>: zero when a limit is
  requested and there is more than one range, the requested offset otherwise.
\<close>

lemma performRangeScan_offset:
  assumes "\<forall>r \<in> set rs. rangeEnd r \<noteq> None"
  shows "\<exists>res. performRangeScan ops ctx rs usedQ =
            Inr (res, map (\<lambda>r. GetRange (rangeScanOptions ctx (usedLimit res) (usedOffset res) r)) rs)
     \<and> usedOffset res = (if truthy ops (limit ctx) \<and> length rs > 1 then 0
                         else (case offset ctx of None \<Rightarrow> 0 | Some n \<Rightarrow> n))
     \<and> (\<forall>r \<in> set rs. scanOffset (rangeScanOptions ctx (usedLimit res) (usedOffset res) r)
           = Some (usedOffset res))"
proof -
  obtain lim off where lo: "limitAndOffset ops ctx rs = (lim, off)"
    by (cases "limitAndOffset ops ctx rs") auto
  let ?found = "concat (map (\<lambda>r. getRange (indexes ctx) (rangeScanOptions ctx lim off r)) rs)"
  let ?res = "\<lparr>entries = (if maxKeysPerItem ctx > 1 then deduplicate getIdentifier ?found
                            else Inr ?found),
               usedLimit = lim, usedOffset = off, resultUsedQueries = usedQ\<rparr>"
  have run: "performRangeScan ops ctx rs usedQ =
      Inr (?res, map (\<lambda>r. GetRange (rangeScanOptions ctx lim off r)) rs)"
    using lo scanRanges_all [OF assms, of ctx lim off "[]" "[]"]
    by (simp add: performRangeScan_def)
  have off: "off = (if truthy ops (limit ctx) \<and> length rs > 1 then 0
                         else (case offset ctx of None \<Rightarrow> 0 | Some n \<Rightarrow> n))"
    using lo limitAndOffset_offset [of ops ctx rs] by simp
  have so: "\<forall>r \<in> set rs. scanOffset (rangeScanOptions ctx lim off r) = Some off"
    by (simp add: rangeScanOptions_def scanOptions_def)
  show ?thesis
    using run off so by (intro exI [of _ ?res]) simp
qed

text \<open>
  C5 fails on the code. The reset \<open>offset = 0\<close> for more than one range sits inside
  \<open>if (limit)\<close>: with the two ranges of \<open>{a: {in: [1, 2]}}\<close>, offset 5 and no limit, both
  scans are issued with offset 5, and \<open>usedOffset\<close> reports 5.
\<close>

theorem performRangeScan_offset_without_limit:
  "performRangeScan ops
     \<lparr>indexes = ix, dbQueries = [clause 0 ''a'' IN (JsArray [JsNumber 1, JsNumber 2])],
      indexFields = [''a''], keyPrefix = JsString ''idx'', maxKeysPerItem = 1,
      limit = None, offset = Some 5, reverse = False\<rparr>
     [\<lparr>rangeStart = [Value (JsNumber 1)], rangeEnd = Some [RangeEdgeAfter (JsNumber 1)]\<rparr>,
      \<lparr>rangeStart = [Value (JsNumber 2)], rangeEnd = Some [RangeEdgeAfter (JsNumber 2)]\<rparr>]
     [clause 0 ''a'' IN (JsArray [JsNumber 1, JsNumber 2])]
   = Inr (\<lparr>entries = Inr
             (getRange ix \<lparr>scanStart = [Value (JsString ''idx''), Value (JsNumber 1)],
                           scanEnd = [Value (JsString ''idx''), RangeEdgeAfter (JsNumber 1)],
                           scanLimit = None, scanOffset = Some 5, scanReverse = False,
                           snapshot = False\<rparr>
              @ getRange ix \<lparr>scanStart = [Value (JsString ''idx''), Value (JsNumber 2)],
                             scanEnd = [Value (JsString ''idx''), RangeEdgeAfter (JsNumber 2)],
                             scanLimit = None, scanOffset = Some 5, scanReverse = False,
                             snapshot = False\<rparr>),
           usedLimit = None, usedOffset = 5,
           resultUsedQueries = [clause 0 ''a'' IN (JsArray [JsNumber 1, JsNumber 2])]\<rparr>,
          [GetRange \<lparr>scanStart = [Value (JsString ''idx''), Value (JsNumber 1)],
                     scanEnd = [Value (JsString ''idx''), RangeEdgeAfter (JsNumber 1)],
                     scanLimit = None, scanOffset = Some 5, scanReverse = False,
                     snapshot = False\<rparr>,
           GetRange \<lparr>scanStart = [Value (JsString ''idx''), Value (JsNumber 2)],
                     scanEnd = [Value (JsString ''idx''), RangeEdgeAfter (JsNumber 2)],
                     scanLimit = None, scanOffset = Some 5, scanReverse = False,
                     snapshot = False\<rparr>])"
  by (simp add: performRangeScan_def limitAndOffset_def truthy_def scanOptions_def Let_def)

text \<open>
  \<open>performFullScan\<close> itself issues the two sub-scans, from just after \<open>undefinedSymbol\<close> to
  the end of the partition of \<open>indexName\<close> and from \<open>null\<close> to just after
  \<open>undefinedSymbol\<close>, and concatenates them in that order, or, for a reverse scan, issues them
  with swapped boundaries and concatenates them in the opposite order.
\<close>

lemma performFullScan_subscans:
  "performFullScan ctx indexName False =
     (deduplicate getIdentifier
        (getRange (indexes ctx)
           \<lparr>scanStart = [Value indexName, getValueEdgeAfter undefinedSymbol],
            scanEnd = [getValueEdgeAfter indexName], scanLimit = None, scanOffset = None,
            scanReverse = False, snapshot = False\<rparr>
         @ getRange (indexes ctx)
           \<lparr>scanStart = [Value indexName, Value JsNull],
            scanEnd = [Value indexName, getValueEdgeAfter undefinedSymbol], scanLimit = None,
            scanOffset = None, scanReverse = False, snapshot = False\<rparr>),
      [GetRange \<lparr>scanStart = [Value indexName, getValueEdgeAfter undefinedSymbol],
                 scanEnd = [getValueEdgeAfter indexName], scanLimit = None, scanOffset = None,
                 scanReverse = False, snapshot = False\<rparr>,
       GetRange \<lparr>scanStart = [Value indexName, Value JsNull],
                 scanEnd = [Value indexName, getValueEdgeAfter undefinedSymbol], scanLimit = None,
                 scanOffset = None, scanReverse = False, snapshot = False\<rparr>])"
  "performFullScan ctx indexName True =
     (deduplicate getIdentifier
        (getRange (indexes ctx)
           \<lparr>scanStart = [Value indexName, getValueEdgeAfter undefinedSymbol],
            scanEnd = [Value indexName, Value JsNull], scanLimit = None,
            scanOffset = None, scanReverse = True, snapshot = False\<rparr>
         @ getRange (indexes ctx)
           \<lparr>scanStart = [getValueEdgeAfter indexName],
            scanEnd = [Value indexName, getValueEdgeAfter undefinedSymbol], scanLimit = None,
            scanOffset = None, scanReverse = True, snapshot = False\<rparr>),
      [GetRange \<lparr>scanStart = [getValueEdgeAfter indexName],
                 scanEnd = [Value indexName, getValueEdgeAfter undefinedSymbol], scanLimit = None,
                 scanOffset = None, scanReverse = True, snapshot = False\<rparr>,
       GetRange \<lparr>scanStart = [Value indexName, getValueEdgeAfter undefinedSymbol],
                 scanEnd = [Value indexName, Value JsNull], scanLimit = None,
                 scanOffset = None, scanReverse = True, snapshot = False\<rparr>])"
  by (simp_all add: performFullScan_def Let_def)

text \<open>
  C7 fails on the code. \<open>filterUsingIndex\<close> calls \<open>performFullScan(context)\<close>: with no
  clause, the index \<open>idx\<close> and \<open>reverse = true\<close>, the two sub-scans are issued forward,
  over the partition of \<open>undefined\<close> and not of \<open>idx\<close>, and are concatenated in the ascending
  order.
\<close>

theorem filterUsingIndex_full_scan_ignores_reverse:
  "filterUsingIndex ops
     \<lparr>indexes = ix, dbQueries = [], indexFields = [''a''], keyPrefix = JsString ''idx'',
      maxKeysPerItem = 1, limit = None, offset = None, reverse = True\<rparr>
   = Inr (([], FullScanResult
             (deduplicate getIdentifier
                (getRange ix \<lparr>scanStart = [Value JsUndefined, RangeEdgeAfter undefinedSymbol],
                              scanEnd = [RangeEdgeAfter JsUndefined], scanLimit = None,
                              scanOffset = None, scanReverse = False, snapshot = False\<rparr>
                 @ getRange ix \<lparr>scanStart = [Value JsUndefined, Value JsNull],
                                scanEnd = [Value JsUndefined, RangeEdgeAfter undefinedSymbol],
                                scanLimit = None, scanOffset = None, scanReverse = False,
                                snapshot = False\<rparr>))),
          [GetRange \<lparr>scanStart = [Value JsUndefined, RangeEdgeAfter undefinedSymbol],
                     scanEnd = [RangeEdgeAfter JsUndefined], scanLimit = None,
                     scanOffset = None, scanReverse = False, snapshot = False\<rparr>,
           GetRange \<lparr>scanStart = [Value JsUndefined, Value JsNull],
                     scanEnd = [Value JsUndefined, RangeEdgeAfter undefinedSymbol],
                     scanLimit = None, scanOffset = None, scanReverse = False,
                     snapshot = False\<rparr>])"
  by (simp add: filterUsingIndex_def performFullScan_def eval_defs Let_def)

end
